theory Spec2Isabelle
  imports Main "HOL-Library.Word" "HOL-Library.Multiset" "HOL-Library.Product_Lexorder"
begin

section \<open>Rich-text layout: the String aggregate of ui/text/text.cpp\<close>

subsection \<open>Fixed-point numbers, margins and styles\<close>

text \<open>
  QFixed is Qt's fixed-point number: an integer count of 1/64 pixel. Its declaration is
  not part of text.cpp; the operations used there are the conversion from int
  (multiplication by 64), \<open>ceil\<close>, \<open>toInt\<close> (rounding to nearest) and the comparisons.
  Values are unbounded integers here: signed overflow of the 32-bit representation is
  undefined behaviour in C++ and lies outside the model.
\<close>

type_synonym QFixed = int

definition QFixed_fromInt :: "int \<Rightarrow> QFixed" where
  "QFixed_fromInt i = i * 64"

definition QFixed_ceil :: "QFixed \<Rightarrow> QFixed" where
  "QFixed_ceil v = ((v + 63) div 64) * 64"

definition QFixed_toInt :: "QFixed \<Rightarrow> int" where
  "QFixed_toInt v = (v + 32) div 64"

type_synonym QChar = "16 word"
type_synonym QString = "QChar list"
type_synonym uint16 = "16 word"

record QMargins =
  m_left :: int
  m_top :: int
  m_right :: int
  m_bottom :: int

definition QMargins_zero :: QMargins where
  "QMargins_zero = \<lparr>m_left = 0, m_top = 0, m_right = 0, m_bottom = 0\<rparr>"

definition QMargins_plus :: "QMargins \<Rightarrow> QMargins \<Rightarrow> QMargins" where
  "QMargins_plus a b =
     \<lparr>m_left = m_left a + m_left b, m_top = m_top a + m_top b,
      m_right = m_right a + m_right b, m_bottom = m_bottom a + m_bottom b\<rparr>"

text \<open>
  The style structures (style::TextStyle, style::ParagraphStyle) are declared outside
  text.cpp; only the fields text.cpp reads are kept.
\<close>

record ParagraphStyle =
  ps_padding :: QMargins
  ps_verticalSkip :: int
  ps_header :: int

record TextStyle =
  st_lineHeight :: int
  st_fontHeight :: int
  st_pre :: ParagraphStyle
  st_blockquote :: ParagraphStyle

subsection \<open>Blocks, words, extended data\<close>

datatype TextBlockType = BNewline | BText | BEmoji | BCustomEmoji | BSkip

datatype TextBlockFlag =
  FBold | FItalic | FUnderline | FStrikeOut | FTilde | FSemibold | FCode | FPre
  | FSpoiler | FBlockquote

datatype EntityType =
  EInvalid | EUrl | ECustomUrl | EEmail | EHashtag | ECashtag | EMention | EMentionName
  | ECustomEmoji | EBotCommand | EBold | ESemibold | EItalic | EUnderline | EStrikeOut
  | ECode | EPre | EBlockquote | ESpoiler

text \<open>A word of a text block; a negative width marks a chunk that does not end its word.\<close>

record TextWord =
  w_width :: QFixed
  w_rbearing :: QFixed
  w_rpadding :: QFixed

text \<open>
  One block (AbstractBlock and its subclasses, flattened): the common fields, the words
  of a Text block, the paragraph index of a Newline block, the height of a Skip block and
  the entity data of a CustomEmoji block.
\<close>

record Block =
  b_type :: TextBlockType
  b_position :: uint16
  b_flags :: "TextBlockFlag set"
  b_linkIndex :: nat
  b_width :: QFixed
  b_rbearing :: QFixed
  b_rpadding :: QFixed
  b_words :: "TextWord list"
  b_paragraphIndex :: nat
  b_height :: int
  b_entityData :: QString

record ClickHandler =
  ch_type :: EntityType
  ch_data :: QString

record ParagraphDetails =
  pd_pre :: bool

record ExtendedData =
  ed_links :: "ClickHandler option list"
  ed_paragraphs :: "ParagraphDetails list"

record String =
  m_text :: QString
  m_blocks :: "Block list"
  m_extended :: "ExtendedData option"
  m_st :: TextStyle
  m_minResizeWidth :: int
  m_maxWidth :: int
  m_minHeight :: int
  m_startParagraphIndex :: nat
  m_endsWithParagraphDetails :: bool
  m_skipBlockAddedNewline :: bool

definition CountBlockHeight :: "Block \<Rightarrow> TextStyle \<Rightarrow> int" where
  \<comment> \<open>Modelled from the spec: CountBlockHeight is declared outside text.cpp. A run's
      height comes from the style metrics (the larger of the style's line height and its
      font height); a Skip run has its own fixed pixel height.\<close>
  "CountBlockHeight b st =
     (if b_type b = BSkip then b_height b
      else if st_lineHeight st > st_fontHeight st then st_lineHeight st
      else st_fontHeight st)"

text \<open>
  \<open>paragraphByIndex\<close>: the outer \<open>None\<close> is the failed \<open>Expects\<close> (a fatal
  precondition violation), the inner \<open>None\<close> the null pointer returned for index 0.
\<close>

definition paragraphByIndex :: "String \<Rightarrow> nat \<Rightarrow> ParagraphDetails option option" where
  "paragraphByIndex s index =
     (if index = 0 then Some None
      else (case m_extended s of
              None \<Rightarrow> None
            | Some ext \<Rightarrow>
                if index \<le> length (ed_paragraphs ext)
                then Some (Some (ed_paragraphs ext ! (index - 1)))
                else None))"

definition paragraphIndex :: "String \<Rightarrow> Block option \<Rightarrow> nat" where
  "paragraphIndex s block =
     (case block of None \<Rightarrow> m_startParagraphIndex s | Some b \<Rightarrow> b_paragraphIndex b)"

definition paragraphPadding :: "String \<Rightarrow> ParagraphDetails option \<Rightarrow> QMargins" where
  "paragraphPadding s info =
     (case info of
        None \<Rightarrow> QMargins_zero
      | Some d \<Rightarrow>
          (let st = (if pd_pre d then st_pre (m_st s) else st_blockquote (m_st s));
               skip = ps_verticalSkip st;
               top = ps_header st
           in QMargins_plus (ps_padding st)
                \<lparr>m_left = 0, m_top = top + skip, m_right = 0, m_bottom = skip\<rparr>))"

subsection \<open>recountNaturalSize\<close>

record RecountState =
  rs_pindex :: nat
  rs_ppadding :: QMargins
  rs_minHeight :: int
  rs_lineHeight :: int
  rs_maxWidth :: QFixed
  rs_width :: QFixed
  rs_last_rBearing :: QFixed
  rs_last_rPadding :: QFixed

definition recount_newline :: "String \<Rightarrow> Block \<Rightarrow> RecountState \<Rightarrow> RecountState option" where
  "recount_newline s b r =
     (let blockHeight = CountBlockHeight b (m_st s);
          lineHeight = (if rs_lineHeight r = 0 then blockHeight else rs_lineHeight r);
          index = paragraphIndex s (Some b)
      in (case (if rs_pindex r \<noteq> index
                then (case paragraphByIndex s index of
                        None \<Rightarrow> None
                      | Some paragraph \<Rightarrow>
                          (let ppadding = paragraphPadding s paragraph
                           in Some (r\<lparr>rs_minHeight :=
                                         rs_minHeight r + m_bottom (rs_ppadding r) + m_top ppadding,
                                       rs_pindex := index,
                                       rs_ppadding := ppadding\<lparr>m_top := 0\<rparr>\<rparr>)))
                else Some r) of
            None \<Rightarrow> None
          | Some r1 \<Rightarrow>
              Some (r1\<lparr>rs_minHeight := rs_minHeight r1 + lineHeight,
                        rs_lineHeight := 0,
                        rs_last_rBearing := 0,
                        rs_last_rPadding := 0,
                        rs_maxWidth := max (rs_maxWidth r1) (rs_width r1),
                        rs_width := QFixed_fromInt
                          (m_left (rs_ppadding r1) + m_right (rs_ppadding r1))\<rparr>)))"

definition recount_block :: "String \<Rightarrow> Block \<Rightarrow> RecountState \<Rightarrow> RecountState" where
  "recount_block s b r =
     (let blockHeight = CountBlockHeight b (m_st s)
      in r\<lparr>rs_maxWidth := max (rs_maxWidth r) (rs_width r),
            rs_width := rs_width r
              + (rs_last_rBearing r + (rs_last_rPadding r + b_width b - b_rbearing b)),
            rs_lineHeight := max (rs_lineHeight r) blockHeight,
            rs_last_rBearing := b_rbearing b,
            rs_last_rPadding := b_rpadding b\<rparr>)"

fun recount_loop :: "String \<Rightarrow> Block list \<Rightarrow> RecountState \<Rightarrow> RecountState option" where
  "recount_loop s [] r = Some r"
| "recount_loop s (b # bs) r =
     (if b_type b = BNewline
      then (case recount_newline s b r of
              None \<Rightarrow> None
            | Some r1 \<Rightarrow> recount_loop s bs r1)
      else recount_loop s bs (recount_block s b r))"

text \<open>
  The paragraph direction flags, which the function also recomputes when \<open>initial\<close> is
  set, need Qt's character direction table and are not modelled. \<open>None\<close> is a failed
  \<open>Expects\<close> of paragraphByIndex, or the read of the last block of an empty block list.
\<close>

definition recountNaturalSize :: "String \<Rightarrow> String option" where
  "recountNaturalSize s =
     (let pindex = paragraphIndex s None
      in (case paragraphByIndex s pindex of
            None \<Rightarrow> None
          | Some paragraph \<Rightarrow>
              (let ppadding = paragraphPadding s paragraph;
                   r0 = \<lparr>rs_pindex = pindex, rs_ppadding = ppadding,
                         rs_minHeight = m_top ppadding, rs_lineHeight = 0,
                         rs_maxWidth = 0,
                         rs_width = QFixed_fromInt (m_left ppadding + m_right ppadding),
                         rs_last_rBearing = 0, rs_last_rPadding = 0\<rparr>
               in (case recount_loop s (m_blocks s) r0 of
                     None \<Rightarrow> None
                   | Some r \<Rightarrow>
                       if rs_width r > 0
                       then (if rs_lineHeight r = 0 \<and> m_blocks s = [] then None
                             else
                               (let lineHeight =
                                      (if rs_lineHeight r = 0
                                       then CountBlockHeight (last (m_blocks s)) (m_st s)
                                       else rs_lineHeight r)
                                in Some (s\<lparr>m_minHeight := rs_minHeight r
                                              + (m_top (rs_ppadding r) + lineHeight
                                                 + m_bottom (rs_ppadding r)),
                                            m_maxWidth := QFixed_toInt (QFixed_ceil
                                              (max (rs_maxWidth r) (rs_width r))),
                                            m_endsWithParagraphDetails := (rs_pindex r \<noteq> 0)\<rparr>)))
                       else Some (s\<lparr>m_minHeight := rs_minHeight r,
                                     m_maxWidth := QFixed_toInt (QFixed_ceil (rs_maxWidth r)),
                                     m_endsWithParagraphDetails := (rs_pindex r \<noteq> 0)\<rparr>)))))"

subsection \<open>enumerateLines\<close>

text \<open>
  A unit of layout: a block placed as a whole, or one word of a text block that did not
  fit as a whole. The source tells its callback only the width and the height of each
  line; the units of a line are recorded beside them as ghost state, following the
  snapshots (\<open>f_wLeft\<close>, \<open>f_lineHeight\<close>) the source itself keeps for the roll-back.
\<close>

datatype LayoutUnit = UBlock nat | UWord nat nat

record Line =
  line_width :: QFixed
  line_height :: int
  line_units :: "LayoutUnit list"

record LineState =
  ls_pindex :: nat
  ls_ppadding :: QMargins
  ls_widthLeft :: QFixed
  ls_lineHeight :: int
  ls_last_rBearing :: QFixed
  ls_last_rPadding :: QFixed
  ls_longWordLine :: bool
  ls_lines :: "Line list"
  ls_units :: "LayoutUnit list"

definition callback :: "QFixed \<Rightarrow> int \<Rightarrow> LineState \<Rightarrow> LineState" where
  \<comment> \<open>one call of the callback: the line is appended to the calls made so far\<close>
  "callback lineWidth lineHeight st =
     st\<lparr>ls_lines := ls_lines st @
            [\<lparr>line_width = lineWidth, line_height = lineHeight, line_units = ls_units st\<rparr>],
        ls_units := []\<rparr>"

text \<open>
  The loop over the words of a text block that did not fit as a whole. The iterators
  \<open>j\<close> and \<open>f\<close> are the suffixes \<open>js\<close> and \<open>fs\<close> of the word list \<open>ws\<close>;
  \<open>f != j\<close> compares their lengths. Dereferencing \<open>f\<close> at the end of the list
  cannot happen (\<open>f\<close> never passes \<open>j\<close>); the model returns the state there.
  The three pieces of the loop body come first: the width left after a word, the branch
  that places a word on the current line, and the branch that emits the line and starts
  the next one with a word.
\<close>

definition word_newWidthLeft :: "LineState \<Rightarrow> TextWord \<Rightarrow> QFixed" where
  "word_newWidthLeft st j =
     (let wordEndsHere = (w_width j \<ge> 0);
          j_width = (if wordEndsHere then w_width j else - w_width j)
      in ls_widthLeft st - ls_last_rBearing st
           - (ls_last_rPadding st + j_width - w_rbearing j))"

definition word_place :: "int \<Rightarrow> LayoutUnit \<Rightarrow> TextWord \<Rightarrow> LineState \<Rightarrow> LineState" where
  "word_place blockHeight u j st =
     st\<lparr>ls_last_rBearing := w_rbearing j,
        ls_last_rPadding := w_rpadding j,
        ls_widthLeft := word_newWidthLeft st j,
        ls_lineHeight := max (ls_lineHeight st) blockHeight,
        ls_longWordLine := (if w_width j \<ge> 0 then False else ls_longWordLine st),
        ls_units := ls_units st @ [u]\<rparr>"

definition word_break ::
  "QFixed \<Rightarrow> int \<Rightarrow> LayoutUnit \<Rightarrow> bool \<Rightarrow> TextWord \<Rightarrow> LineState \<Rightarrow> LineState" where
  \<comment> \<open>\<open>wordEndsHere\<close> is still that of the word that did not fit, also after a roll-back\<close>
  "word_break width blockHeight u wordEndsHere j st =
     (let j_width = (if w_width j \<ge> 0 then w_width j else - w_width j);
          st2 = callback (width - ls_widthLeft st)
                  (ls_lineHeight st + m_top (ls_ppadding st)) st
      in st2\<lparr>ls_ppadding := (ls_ppadding st2)\<lparr>m_top := 0\<rparr>,
             ls_lineHeight := max 0 blockHeight,
             ls_last_rBearing := w_rbearing j,
             ls_last_rPadding := w_rpadding j,
             ls_widthLeft := width
               - QFixed_fromInt (m_left (ls_ppadding st2))
               - QFixed_fromInt (m_right (ls_ppadding st2))
               - (j_width - w_rbearing j),
             ls_longWordLine := (\<not> wordEndsHere),
             ls_units := [u]\<rparr>)"

function words_loop ::
  "QFixed \<Rightarrow> bool \<Rightarrow> int \<Rightarrow> nat \<Rightarrow> TextWord list \<Rightarrow> TextWord list \<Rightarrow> TextWord list
    \<Rightarrow> QFixed \<Rightarrow> int \<Rightarrow> LayoutUnit list \<Rightarrow> LineState \<Rightarrow> LineState" where
  "words_loop width breakEverywhere blockHeight bi ws js fs f_wLeft f_lineHeight f_units st =
     (case js of
        [] \<Rightarrow> st
      | j # jrest \<Rightarrow>
          if word_newWidthLeft st j \<ge> 0
          then
            (let st1 = word_place blockHeight (UWord bi (length ws - length js)) j st
             in if w_width j \<ge> 0 \<or> ls_longWordLine st1
                then words_loop width breakEverywhere blockHeight bi ws jrest jrest
                       (ls_widthLeft st1) (ls_lineHeight st1) (ls_units st1) st1
                else words_loop width breakEverywhere blockHeight bi ws jrest fs
                       f_wLeft f_lineHeight f_units st1)
          else if length fs \<noteq> length js \<and> \<not> breakEverywhere
          then
            (case fs of
               [] \<Rightarrow> st
             | f # frest \<Rightarrow>
                 (let st1 = word_break width blockHeight (UWord bi (length ws - length fs))
                              (w_width j \<ge> 0) f
                              (st\<lparr>ls_widthLeft := f_wLeft, ls_lineHeight := f_lineHeight,
                                  ls_units := f_units\<rparr>)
                  in words_loop width breakEverywhere blockHeight bi ws frest frest
                       (ls_widthLeft st1) (ls_lineHeight st1) (ls_units st1) st1))
          else
            (let st1 = word_break width blockHeight (UWord bi (length ws - length js))
                         (w_width j \<ge> 0) j st
             in words_loop width breakEverywhere blockHeight bi ws jrest jrest
                  (ls_widthLeft st1) (ls_lineHeight st1) (ls_units st1) st1))"
  by pat_completeness auto
termination
  by (relation "measures
        [\<lambda>(width, be, bh, bi, ws, js, fs, r). max (length js) (length fs),
         \<lambda>(width, be, bh, bi, ws, js, fs, r). length js]")
     auto

declare words_loop.simps [simp del]

definition enumerate_newline ::
  "String \<Rightarrow> QFixed \<Rightarrow> nat \<Rightarrow> Block \<Rightarrow> LineState \<Rightarrow> LineState option" where
  "enumerate_newline s width bi b st =
     (let blockHeight = CountBlockHeight b (m_st s);
          lineHeight0 = (if ls_lineHeight st = 0 then blockHeight else ls_lineHeight st);
          lineHeight1 = lineHeight0 + m_top (ls_ppadding st);
          index = paragraphIndex s (Some b)
      in (case (if ls_pindex st \<noteq> index
                then (case paragraphByIndex s index of
                        None \<Rightarrow> None
                      | Some paragraph \<Rightarrow>
                          Some (st\<lparr>ls_lineHeight := lineHeight1 + m_bottom (ls_ppadding st),
                                    ls_pindex := index,
                                    ls_ppadding := paragraphPadding s paragraph\<rparr>))
                else Some (st\<lparr>ls_lineHeight := lineHeight1,
                               ls_ppadding := (ls_ppadding st)\<lparr>m_top := 0\<rparr>\<rparr>)) of
            None \<Rightarrow> None
          | Some st1 \<Rightarrow>
              (let st2 = callback (width - ls_widthLeft st1) (ls_lineHeight st1)
                           (st1\<lparr>ls_units := ls_units st1 @ [UBlock bi]\<rparr>)
               in Some (st2\<lparr>ls_lineHeight := 0,
                            ls_last_rBearing := 0,
                            ls_last_rPadding := 0,
                            ls_widthLeft := width
                              - QFixed_fromInt (m_left (ls_ppadding st2))
                              - QFixed_fromInt (m_right (ls_ppadding st2)),
                            ls_longWordLine := True\<rparr>))))"

definition enumerate_block ::
  "String \<Rightarrow> QFixed \<Rightarrow> bool \<Rightarrow> nat \<Rightarrow> Block \<Rightarrow> LineState \<Rightarrow> LineState" where
  "enumerate_block s width breakEverywhere bi b st =
     (let blockHeight = CountBlockHeight b (m_st s);
          newWidthLeft = ls_widthLeft st - ls_last_rBearing st
            - (ls_last_rPadding st + b_width b - b_rbearing b)
      in if newWidthLeft \<ge> 0
         then st\<lparr>ls_last_rBearing := b_rbearing b,
                 ls_last_rPadding := b_rpadding b,
                 ls_widthLeft := newWidthLeft,
                 ls_lineHeight := max (ls_lineHeight st) blockHeight,
                 ls_longWordLine := False,
                 ls_units := ls_units st @ [UBlock bi]\<rparr>
         else if b_type b = BText
         then (if b_words b = []
               then st\<lparr>ls_last_rPadding := ls_last_rPadding st + b_rpadding b,
                       ls_lineHeight := max (ls_lineHeight st) blockHeight,
                       ls_longWordLine := False,
                       ls_units := ls_units st @ [UBlock bi]\<rparr>
               else words_loop width breakEverywhere blockHeight bi (b_words b)
                      (b_words b) (b_words b) (ls_widthLeft st) (ls_lineHeight st)
                      (ls_units st) st)
         else
           (let st2 = callback (width - ls_widthLeft st)
                        (ls_lineHeight st + m_top (ls_ppadding st)) st
            in st2\<lparr>ls_ppadding := (ls_ppadding st2)\<lparr>m_top := 0\<rparr>,
                   ls_lineHeight := max 0 blockHeight,
                   ls_last_rBearing := b_rbearing b,
                   ls_last_rPadding := b_rpadding b,
                   ls_widthLeft := width
                     - QFixed_fromInt (m_left (ls_ppadding st2))
                     - QFixed_fromInt (m_right (ls_ppadding st2))
                     - (b_width b - b_rbearing b),
                   ls_longWordLine := True,
                   ls_units := [UBlock bi]\<rparr>))"

fun lines_loop ::
  "String \<Rightarrow> QFixed \<Rightarrow> bool \<Rightarrow> nat \<Rightarrow> Block list \<Rightarrow> LineState \<Rightarrow> LineState option" where
  "lines_loop s width breakEverywhere bi [] st = Some st"
| "lines_loop s width breakEverywhere bi (b # bs) st =
     (if b_type b = BNewline
      then (case enumerate_newline s width bi b st of
              None \<Rightarrow> None
            | Some st1 \<Rightarrow> lines_loop s width breakEverywhere (Suc bi) bs st1)
      else lines_loop s width breakEverywhere (Suc bi) bs
             (enumerate_block s width breakEverywhere bi b st))"

text \<open>
  The state in which the loop over the blocks ends, before the final line is emitted;
  \<open>None\<close> is a failed \<open>Expects\<close> of paragraphByIndex.
\<close>

definition enumerateLines_loop :: "String \<Rightarrow> int \<Rightarrow> bool \<Rightarrow> LineState option" where
  "enumerateLines_loop s w breakEverywhere =
     (let width = QFixed_fromInt (max w (m_minResizeWidth s));
          pindex = paragraphIndex s None
      in (case paragraphByIndex s pindex of
            None \<Rightarrow> None
          | Some paragraph \<Rightarrow>
              (let ppadding = paragraphPadding s paragraph
               in lines_loop s width breakEverywhere 0 (m_blocks s)
                    \<lparr>ls_pindex = pindex, ls_ppadding = ppadding,
                     ls_widthLeft = width - QFixed_fromInt (m_left ppadding)
                       - QFixed_fromInt (m_right ppadding),
                     ls_lineHeight = 0, ls_last_rBearing = 0, ls_last_rPadding = 0,
                     ls_longWordLine = True, ls_lines = [], ls_units = []\<rparr>)))"

definition enumerateLines :: "String \<Rightarrow> int \<Rightarrow> bool \<Rightarrow> Line list option" where
  "enumerateLines s w breakEverywhere =
     (let width = QFixed_fromInt (max w (m_minResizeWidth s))
      in (case enumerateLines_loop s w breakEverywhere of
            None \<Rightarrow> None
          | Some st \<Rightarrow>
              if ls_widthLeft st < width
              then Some (ls_lines (callback (width - ls_widthLeft st)
                     (ls_lineHeight st + m_top (ls_ppadding st) + m_bottom (ls_ppadding st)) st))
              else Some (ls_lines st)))"

text \<open>
  Ghost bookkeeping for the units: the units of the lines emitted so far, the units a
  block contributes (the block itself, or its words when it was laid out word by word),
  the units of a block list for a given choice of the blocks that were split into words,
  and the units left on the last line when enumerateLines does not emit it.
\<close>

definition emittedUnits :: "LineState \<Rightarrow> LayoutUnit list" where
  "emittedUnits st = concat (map line_units (ls_lines st))"

definition blockUnits :: "nat \<Rightarrow> Block \<Rightarrow> bool \<Rightarrow> LayoutUnit list" where
  "blockUnits bi b split =
     (if split then map (UWord bi) [0..<length (b_words b)] else [UBlock bi])"

fun layoutUnits :: "nat \<Rightarrow> Block list \<Rightarrow> bool list \<Rightarrow> LayoutUnit list" where
  "layoutUnits bi [] splits = []"
| "layoutUnits bi (b # bs) splits =
     blockUnits bi b (splits \<noteq> [] \<and> hd splits) @ layoutUnits (Suc bi) bs (tl splits)"

fun unitBlock :: "LayoutUnit \<Rightarrow> nat" where
  "unitBlock (UBlock i) = i"
| "unitBlock (UWord i k) = i"

definition enumerateLines_pending :: "String \<Rightarrow> int \<Rightarrow> bool \<Rightarrow> LayoutUnit list option" where
  "enumerateLines_pending s w breakEverywhere =
     (let width = QFixed_fromInt (max w (m_minResizeWidth s))
      in (case enumerateLines_loop s w breakEverywhere of
            None \<Rightarrow> None
          | Some st \<Rightarrow> if ls_widthLeft st < width then Some [] else Some (ls_units st)))"

subsection \<open>countWidth and countHeight\<close>

text \<open>
  Both queries are instrumented with the branch that computed the result: the
  short-circuit on the cached natural size, or a run of enumerateLines.
\<close>

datatype Branch = ShortCircuit | RanEnumerateLines



definition countHeight_branch :: "String \<Rightarrow> int \<Rightarrow> bool \<Rightarrow> (Branch \<times> int) option" where
  "countHeight_branch s width breakEverywhere =
     (if QFixed_fromInt width \<ge> QFixed_fromInt (m_maxWidth s)
      then Some (ShortCircuit, m_minHeight s)
      else (case enumerateLines s width breakEverywhere of
              None \<Rightarrow> None
            | Some ls \<Rightarrow>
                Some (RanEnumerateLines,
                      foldl (\<lambda>result l. result + line_height l) 0 ls)))"

definition countHeight :: "String \<Rightarrow> int \<Rightarrow> bool \<Rightarrow> int option" where
  "countHeight s width breakEverywhere = map_option snd (countHeight_branch s width breakEverywhere)"


subsection \<open>The trailing Skip block\<close>

text \<open>
  \<open>Block::Newline\<close> and \<open>Block::Skip\<close> are declared outside text.cpp. As
  updateSkipBlock calls them, the new line block has no flags, no link and paragraph
  index 0, and the skip block has the given pixel width and height; neither has a bearing
  or a padding.
\<close>

definition Block_Newline :: "uint16 \<Rightarrow> Block" where
  "Block_Newline position =
     \<lparr>b_type = BNewline, b_position = position, b_flags = {}, b_linkIndex = 0,
      b_width = 0, b_rbearing = 0, b_rpadding = 0, b_words = [],
      b_paragraphIndex = 0, b_height = 0, b_entityData = []\<rparr>"

definition Block_Skip :: "uint16 \<Rightarrow> int \<Rightarrow> int \<Rightarrow> Block" where
  "Block_Skip position width height =
     \<lparr>b_type = BSkip, b_position = position, b_flags = {}, b_linkIndex = 0,
      b_width = QFixed_fromInt width, b_rbearing = 0, b_rpadding = 0, b_words = [],
      b_paragraphIndex = 0, b_height = height, b_entityData = []\<rparr>"

definition QString_resize :: "QString \<Rightarrow> int \<Rightarrow> QString" where
  \<comment> \<open>QString::resize: a negative size counts as 0; the characters a growing resize
      adds are uninitialised in Qt and 0 here\<close>
  "QString_resize t n = take (nat n) t @ replicate (nat n - length t) 0"

definition LineFeed :: QChar where
  "LineFeed = 10"

definition hasSkipBlock :: "String \<Rightarrow> bool" where
  "hasSkipBlock s = (m_blocks s \<noteq> [] \<and> b_type (last (m_blocks s)) = BSkip)"

definition updateSkipBlock :: "String \<Rightarrow> int \<Rightarrow> int \<Rightarrow> (bool \<times> String) option" where
  "updateSkipBlock s width height =
     (if m_blocks s \<noteq> [] \<and> b_type (last (m_blocks s)) = BSkip
         \<and> QFixed_toInt (b_width (last (m_blocks s))) = width
         \<and> b_height (last (m_blocks s)) = height
      then Some (False, s)
      else
        (let s1 =
               (if m_blocks s \<noteq> [] \<and> b_type (last (m_blocks s)) = BSkip
                then s\<lparr>m_text := QString_resize (m_text s)
                                    (uint (b_position (last (m_blocks s)))),
                        m_blocks := butlast (m_blocks s)\<rparr>
                else if m_endsWithParagraphDetails s
                then s\<lparr>m_text := m_text s @ [LineFeed],
                        m_blocks := m_blocks s
                          @ [Block_Newline (word_of_int (int (length (m_text s) + 1) - 1))],
                        m_skipBlockAddedNewline := True\<rparr>
                else s);
             s2 = s1\<lparr>m_text := m_text s1 @ [95],
                      m_blocks := m_blocks s1
                        @ [Block_Skip (word_of_int (int (length (m_text s1) + 1) - 1))
                             width height]\<rparr>
         in (case recountNaturalSize s2 of
               None \<Rightarrow> None
             | Some s3 \<Rightarrow> Some (True, s3))))"

definition removeSkipBlock :: "String \<Rightarrow> (bool \<times> String) option" where
  "removeSkipBlock s =
     (if m_blocks s = [] \<or> b_type (last (m_blocks s)) \<noteq> BSkip
      then Some (False, s)
      else
        (let s1 =
               (if m_skipBlockAddedNewline s
                then s\<lparr>m_text := QString_resize (m_text s)
                                    (uint (b_position (last (m_blocks s))) - 1),
                        m_blocks := butlast (butlast (m_blocks s)),
                        m_skipBlockAddedNewline := False\<rparr>
                else s\<lparr>m_text := QString_resize (m_text s)
                                    (uint (b_position (last (m_blocks s)))),
                        m_blocks := butlast (m_blocks s)\<rparr>)
         in (case recountNaturalSize s1 of
               None \<Rightarrow> None
             | Some s2 \<Rightarrow> Some (True, s2))))"

text \<open>
  \<open>clear\<close> empties the string: the text, the blocks, the extended data, the cached
  size and the start paragraph (its direction flags are not modelled). It assigns neither
  \<open>_endsWithParagraphDetails\<close> nor \<open>_skipBlockAddedNewline\<close>. \<open>setText\<close> sets the
  style, clears, lets the parser fill the string and recounts the natural size; the
  parser is declared outside text.cpp, and what it stores (the text, the blocks, the
  extended data and the start paragraph index) is a parameter here.
\<close>

definition clear :: "String \<Rightarrow> String" where
  "clear s =
     s\<lparr>m_text := [], m_blocks := [], m_extended := None,
       m_maxWidth := 0, m_minHeight := 0, m_startParagraphIndex := 0\<rparr>"

definition setText ::
  "String \<Rightarrow> TextStyle \<Rightarrow> QString \<Rightarrow> Block list \<Rightarrow> ExtendedData option \<Rightarrow> nat
    \<Rightarrow> String option" where
  "setText s st parsedText parsedBlocks parsedExtended parsedStart =
     recountNaturalSize
       ((clear (s\<lparr>m_st := st\<rparr>))
          \<lparr>m_text := parsedText, m_blocks := parsedBlocks, m_extended := parsedExtended,
           m_startParagraphIndex := parsedStart\<rparr>)"

text \<open>
  The paragraph indices a string uses are those of its first paragraph and of its
  Newline blocks; each must be 0 or the index of a stored paragraph, as the
  \<open>Expects\<close> of paragraphByIndex demands.
\<close>

definition paragraphIndexValid :: "String \<Rightarrow> nat \<Rightarrow> bool" where
  "paragraphIndexValid s index =
     (index = 0 \<or> (case m_extended s of
                     None \<Rightarrow> False
                   | Some ext \<Rightarrow> index \<le> length (ed_paragraphs ext)))"

definition paragraphsValid :: "String \<Rightarrow> bool" where
  "paragraphsValid s =
     (paragraphIndexValid s (m_startParagraphIndex s)
      \<and> list_all (\<lambda>b. b_type b = BNewline \<longrightarrow> paragraphIndexValid s (b_paragraphIndex b))
           (m_blocks s))"

subsection \<open>Characters\<close>

definition IsParagraphSeparator :: "QChar \<Rightarrow> bool" where
  "IsParagraphSeparator ch = (ch = LineFeed)"

definition IsWordSeparator :: "QChar \<Rightarrow> bool" where
  \<comment> \<open>space, line feed and  . , ? ! @ # $ : ; - < > [ ] ( ) { } = / + % & ^ * ' " ` ~ |\<close>
  "IsWordSeparator ch =
     (ch \<in> set [32, 10, 46, 44, 63, 33, 64, 35, 36, 58, 59, 45, 60, 62, 91, 93, 40, 41,
                123, 125, 61, 47, 43, 37, 38, 94, 42, 39, 34, 96, 126, 124])"

text \<open>
  What text.cpp takes from outside the repository: Qt's \<open>QChar::isSpace\<close>, the
  standard library's \<open>std::sort\<close> (as toText calls it on the entity list, with its
  comparison), and \<open>UrlClickHandler::EncodeForOpening\<close>.
\<close>

record EntityInText =
  e_type :: EntityType
  e_offset :: int
  e_length :: int
  e_data :: QString

record Env =
  qt_isSpace :: "QChar \<Rightarrow> bool"
  std_sort :: "(EntityInText \<Rightarrow> EntityInText \<Rightarrow> bool) \<Rightarrow> EntityInText list \<Rightarrow> EntityInText list"
  EncodeForOpening :: "QString \<Rightarrow> QString"

definition IsSpace :: "Env \<Rightarrow> QChar \<Rightarrow> bool" where
  "IsSpace env ch =
     (qt_isSpace env ch \<or> ch < 32 \<or> ch = 8233 \<or> ch = 8232 \<or> ch = 65532
      \<or> ch = 13 \<or> ch = 9 \<or> ch = 8203)"

definition IsMono :: "TextBlockFlag set \<Rightarrow> bool" where
  \<comment> \<open>Modelled from the spec: IsMono is declared outside text.cpp; a flag combination
      is monospace when it has Code or Pre.\<close>
  "IsMono flags = (FPre \<in> flags \<or> FCode \<in> flags)"

subsection \<open>enumerateText\<close>

record TextSelection =
  sel_from :: uint16
  sel_to :: uint16

definition AllTextSelection :: TextSelection where
  "AllTextSelection = \<lparr>sel_from = 0, sel_to = 65535\<rparr>"

definition isEmpty :: "String \<Rightarrow> bool" where
  "isEmpty s = (m_blocks s = [] \<or> b_type (hd (m_blocks s)) = BSkip)"

definition StringViewMid :: "QString \<Rightarrow> int \<Rightarrow> int \<Rightarrow> QString" where
  \<comment> \<open>the view of at most \<open>n\<close> characters from \<open>pos\<close>, cut at the end of the text\<close>
  "StringViewMid t pos n = take (nat n) (drop (nat pos) t)"

text \<open>
  The calls enumerateText makes to its four callbacks, in order. The callbacks never
  influence the enumeration, so the model returns the list of calls and the caller folds
  its callbacks over it. A finish call also records, as ghost data, the run-range of the
  link: the position where the link started and the position of the block that ended it.
  A start call records, as ghost data, the position where the link starts.
\<close>

datatype TextEvent =
    AppendPart QString QString
  | ClickHandlerStart uint16 EntityType
  | ClickHandlerFinish uint16 uint16 QString "ClickHandler option" EntityType
  | FlagsChange "TextBlockFlag set" "TextBlockFlag set"

text \<open>
  The loop runs over the iterator positions \<open>i\<close>, the end \<open>e\<close> included; the block
  list of the model is the range from \<open>i\<close> to \<open>e\<close>. \<open>None\<close> is a read of the
  link table beyond its end.
\<close>

definition blockLinkIndex :: "String \<Rightarrow> Block list \<Rightarrow> nat option" where
  "blockLinkIndex s bs =
     (case bs of
        [] \<Rightarrow> Some 0
      | b # rest \<Rightarrow>
          if IsMono (b_flags b) then Some 0
          else (let result = b_linkIndex b
                in if result \<noteq> 0
                   then (case m_extended s of
                           None \<Rightarrow> Some 0
                         | Some ext \<Rightarrow>
                             if result - 1 < length (ed_links ext)
                             then (case ed_links ext ! (result - 1) of
                                     None \<Rightarrow> Some 0
                                   | Some h \<Rightarrow> Some result)
                             else None)
                   else Some 0))"

definition countBlockEnd :: "String \<Rightarrow> Block list \<Rightarrow> uint16" where
  \<comment> \<open>for the iterator at the head of a non-empty range\<close>
  "countBlockEnd s bs =
     (case tl bs of
        [] \<Rightarrow> word_of_nat (length (m_text s))
      | n # rest \<Rightarrow> b_position n)"

definition countBlockLength :: "String \<Rightarrow> Block list \<Rightarrow> uint16" where
  "countBlockLength s bs = countBlockEnd s bs - b_position (hd bs)"

definition finishHandler ::
  "String \<Rightarrow> TextSelection \<Rightarrow> nat \<Rightarrow> uint16 \<Rightarrow> uint16 \<Rightarrow> ClickHandler option" where
  \<comment> \<open>the handler passed to the finish callback: links that are partially copied are
      ignored\<close>
  "finishHandler s selection linkIndex linkPosition blockPosition =
     (let rangeFrom = max (sel_from selection) linkPosition;
          rangeTo = min (sel_to selection) blockPosition
      in if linkPosition \<noteq> rangeFrom \<or> blockPosition \<noteq> rangeTo \<or> m_extended s = None
         then None
         else ed_links (the (m_extended s)) ! (linkIndex - 1))"

definition linkFinish ::
  "String \<Rightarrow> TextSelection \<Rightarrow> nat \<Rightarrow> uint16 \<Rightarrow> uint16 \<Rightarrow> TextEvent list" where
  "linkFinish s selection linkIndex linkPosition blockPosition =
     (if linkIndex \<noteq> 0
      then (let rangeFrom = max (sel_from selection) linkPosition;
                rangeTo = min (sel_to selection) blockPosition
            in if rangeTo > rangeFrom
               then (let r = StringViewMid (m_text s) (uint rangeFrom)
                               (uint rangeTo - uint rangeFrom);
                         handler = finishHandler s selection linkIndex linkPosition
                                     blockPosition;
                         type = (case handler of None \<Rightarrow> EInvalid | Some h \<Rightarrow> ch_type h)
                     in [ClickHandlerFinish linkPosition blockPosition r handler type])
               else [])
      else [])"

definition linkStart :: "String \<Rightarrow> nat \<Rightarrow> uint16 \<Rightarrow> TextEvent list" where
  "linkStart s linkIndex blockPosition =
     (if linkIndex \<noteq> 0
      then (let handler = (case m_extended s of
                             None \<Rightarrow> None
                           | Some ext \<Rightarrow> ed_links ext ! (linkIndex - 1))
            in [ClickHandlerStart blockPosition
                  (case handler of None \<Rightarrow> EInvalid | Some h \<Rightarrow> ch_type h)])
      else [])"

definition appendPart :: "String \<Rightarrow> TextSelection \<Rightarrow> Block list \<Rightarrow> TextEvent list" where
  \<comment> \<open>for the iterator at the head of a non-empty range, on a block that is no Skip\<close>
  "appendPart s selection bs =
     (let b = hd bs;
          blockPosition = b_position b;
          rangeFrom = max (sel_from selection) blockPosition;
          rangeTo = min (sel_to selection) (blockPosition + countBlockLength s bs)
      in if rangeTo > rangeFrom
         then [AppendPart
                 (StringViewMid (m_text s) (uint rangeFrom) (uint rangeTo - uint rangeFrom))
                 (if b_type b = BCustomEmoji then b_entityData b else [])]
         else [])"

text \<open>
  The first half of the loop body, the same at a block and at the end of the blocks: the
  change of the link, then the change of the flags. It returns the calls made and the new
  \<open>linkIndex\<close>, \<open>linkPosition\<close> and \<open>flags\<close>.
\<close>

definition enumerateText_step ::
  "String \<Rightarrow> TextSelection \<Rightarrow> uint16 \<Rightarrow> TextBlockFlag set \<Rightarrow> nat \<Rightarrow> nat \<Rightarrow> uint16
    \<Rightarrow> TextBlockFlag set \<Rightarrow> TextEvent list \<times> nat \<times> uint16 \<times> TextBlockFlag set" where
  "enumerateText_step s selection blockPosition blockFlags blockLink linkIndex linkPosition
       flags =
     (let changed = (blockLink \<noteq> linkIndex);
          finish = (if changed
                    then linkFinish s selection linkIndex linkPosition blockPosition
                    else []);
          start = (if changed then linkStart s blockLink blockPosition else []);
          linkPosition1 = (if changed \<and> blockLink \<noteq> 0 then blockPosition
                           else linkPosition);
          linkIndex1 = (if changed then blockLink else linkIndex);
          checkBlockFlags = (blockPosition \<ge> sel_from selection
                             \<and> blockPosition \<le> sel_to selection);
          change = (if checkBlockFlags \<and> blockFlags \<noteq> flags
                    then [FlagsChange flags blockFlags] else []);
          flags1 = (if checkBlockFlags \<and> blockFlags \<noteq> flags then blockFlags else flags)
      in (finish @ start @ change, linkIndex1, linkPosition1, flags1))"

fun enumerateText_loop ::
  "String \<Rightarrow> TextSelection \<Rightarrow> Block list \<Rightarrow> nat \<Rightarrow> uint16 \<Rightarrow> TextBlockFlag set
    \<Rightarrow> TextEvent list option" where
  "enumerateText_loop s selection [] linkIndex linkPosition flags =
     (case blockLinkIndex s [] of
        None \<Rightarrow> None
      | Some blockLink \<Rightarrow>
          (case enumerateText_step s selection (word_of_nat (length (m_text s))) {}
                  blockLink linkIndex linkPosition flags of
             (events, linkIndex1, linkPosition1, flags1) \<Rightarrow> Some events))"
| "enumerateText_loop s selection (b # rest) linkIndex linkPosition flags =
     (case blockLinkIndex s (b # rest) of
        None \<Rightarrow> None
      | Some blockLink \<Rightarrow>
          (case enumerateText_step s selection (b_position b) (b_flags b)
                  blockLink linkIndex linkPosition flags of
             (events, linkIndex1, linkPosition1, flags1) \<Rightarrow>
               if (if linkIndex1 \<noteq> 0 then linkPosition1 else b_position b)
                    \<ge> sel_to selection
               then Some events
               else (case enumerateText_loop s selection rest linkIndex1 linkPosition1
                            flags1 of
                       None \<Rightarrow> None
                     | Some later \<Rightarrow>
                         Some (events
                               @ (if b_type b = BSkip then []
                                  else appendPart s selection (b # rest))
                               @ later))))"

definition enumerateText :: "String \<Rightarrow> TextSelection \<Rightarrow> TextEvent list option" where
  "enumerateText s selection =
     (if isEmpty s \<or> sel_from selection = sel_to selection then Some []
      else enumerateText_loop s selection (m_blocks s) 0 0 {})"

subsection \<open>toText\<close>

record MarkdownTagTracker =
  tr_flag :: TextBlockFlag
  tr_type :: EntityType
  tr_start :: int

record ToTextState =
  tt_expanded :: QString
  tt_text :: QString
  tt_entities :: "EntityInText list"
  tt_linkStart :: int
  tt_trackers :: "MarkdownTagTracker list"

text \<open>
  \<open>insertEntity\<close> walks back from the end of the list over the entities with a larger
  offset and inserts in front of them; the walk is written on the reversed list.
\<close>

fun insertEntity_back :: "EntityInText \<Rightarrow> EntityInText list \<Rightarrow> EntityInText list" where
  "insertEntity_back entity [] = [entity]"
| "insertEntity_back entity (j # earlier) =
     (if e_offset j \<le> e_offset entity then entity # j # earlier
      else j # insertEntity_back entity earlier)"

definition insertEntity :: "EntityInText \<Rightarrow> EntityInText list \<Rightarrow> EntityInText list" where
  "insertEntity entity entities = rev (insertEntity_back entity (rev entities))"

definition markdownTrackers :: "MarkdownTagTracker list" where
  "markdownTrackers =
     map (\<lambda>(f, t). \<lparr>tr_flag = f, tr_type = t, tr_start = 0\<rparr>)
       [(FItalic, EItalic), (FBold, EBold), (FSemibold, ESemibold),
        (FUnderline, EUnderline), (FSpoiler, ESpoiler), (FStrikeOut, EStrikeOut),
        (FCode, ECode), (FPre, EPre), (FBlockquote, EBlockquote)]"

fun flagsChange_trackers ::
  "TextBlockFlag set \<Rightarrow> TextBlockFlag set \<Rightarrow> int \<Rightarrow> MarkdownTagTracker list
    \<Rightarrow> EntityInText list \<Rightarrow> MarkdownTagTracker list \<times> EntityInText list" where
  "flagsChange_trackers oldFlags newFlags textSize [] entities = ([], entities)"
| "flagsChange_trackers oldFlags newFlags textSize (tracker # trackers) entities =
     (let flag = tr_flag tracker
      in if flag \<in> oldFlags \<and> flag \<notin> newFlags
         then (let (ts, es) = flagsChange_trackers oldFlags newFlags textSize trackers
                                (insertEntity
                                   \<lparr>e_type = tr_type tracker, e_offset = tr_start tracker,
                                    e_length = textSize - tr_start tracker, e_data = []\<rparr>
                                   entities)
               in (tracker # ts, es))
         else if flag \<in> newFlags \<and> flag \<notin> oldFlags
         then (let (ts, es) = flagsChange_trackers oldFlags newFlags textSize trackers entities
               in (tracker\<lparr>tr_start := textSize\<rparr> # ts, es))
         else (let (ts, es) = flagsChange_trackers oldFlags newFlags textSize trackers entities
               in (tracker # ts, es)))"

definition flagsChangeCallback ::
  "bool \<Rightarrow> TextBlockFlag set \<Rightarrow> TextBlockFlag set \<Rightarrow> ToTextState \<Rightarrow> ToTextState" where
  "flagsChangeCallback composeEntities oldFlags newFlags result =
     (if \<not> composeEntities then result
      else (let (ts, es) = flagsChange_trackers oldFlags newFlags (int (length (tt_text result)))
                             (tt_trackers result) (tt_entities result)
            in result\<lparr>tt_trackers := ts, tt_entities := es\<rparr>))"

definition clickHandlerStartCallback :: "EntityType \<Rightarrow> ToTextState \<Rightarrow> ToTextState" where
  "clickHandlerStartCallback type result =
     result\<lparr>tt_linkStart := int (length (tt_text result))\<rparr>"

definition internalPrefix :: QString where
  \<comment> \<open>"internal:"\<close>
  "internalPrefix = [105, 110, 116, 101, 114, 110, 97, 108, 58]"

definition isInternalLink :: "ClickHandler \<Rightarrow> bool" where
  "isInternalLink entity =
     (ch_type entity = ECustomUrl
      \<and> take (length internalPrefix) (ch_data entity) = internalPrefix)"

definition clickHandlerFinishCallback ::
  "Env \<Rightarrow> bool \<Rightarrow> bool \<Rightarrow> QString \<Rightarrow> ClickHandler option \<Rightarrow> EntityType
    \<Rightarrow> ToTextState \<Rightarrow> ToTextState" where
  "clickHandlerFinishCallback env composeExpanded composeEntities inText handler type result =
     (case handler of
        None \<Rightarrow> result
      | Some entity \<Rightarrow>
          if \<not> composeExpanded \<and> \<not> composeEntities then result
          else
            (let plainUrl = (ch_type entity = EUrl \<or> ch_type entity = EEmail);
                 full = (if plainUrl then ch_data entity else inText);
                 customTextLink = (ch_type entity = ECustomUrl);
                 internalLink = isInternalLink entity;
                 sameAsTextLink = (customTextLink
                                   \<and> ch_data entity = EncodeForOpening env full);
                 result1 = (if composeExpanded \<and> customTextLink \<and> \<not> internalLink
                               \<and> \<not> sameAsTextLink
                            then result\<lparr>tt_expanded :=
                                   tt_expanded result @ [32, 40] @ ch_data entity @ [41]\<rparr>
                            else result)
             in if composeEntities \<and> \<not> internalLink
                then result1\<lparr>tt_entities :=
                       insertEntity
                         \<lparr>e_type = ch_type entity, e_offset = tt_linkStart result1,
                          e_length = int (length (tt_text result1)) - tt_linkStart result1,
                          e_data = (if plainUrl then [] else ch_data entity)\<rparr>
                         (tt_entities result1)\<rparr>
                else result1))"

definition appendPartCallback ::
  "bool \<Rightarrow> bool \<Rightarrow> QString \<Rightarrow> QString \<Rightarrow> ToTextState \<Rightarrow> ToTextState" where
  "appendPartCallback composeExpanded composeEntities part customEmojiData result =
     (let result1 = result\<lparr>tt_text := tt_text result @ part\<rparr>;
          result2 = (if composeExpanded
                     then result1\<lparr>tt_expanded := tt_expanded result1 @ part\<rparr>
                     else result1)
      in if composeEntities \<and> customEmojiData \<noteq> []
         then result2\<lparr>tt_entities :=
                insertEntity
                  \<lparr>e_type = ECustomEmoji,
                   e_offset = int (length (tt_text result2)) - int (length part),
                   e_length = int (length part), e_data = customEmojiData\<rparr>
                  (tt_entities result2)\<rparr>
         else result2)"

fun callEvent :: "Env \<Rightarrow> bool \<Rightarrow> bool \<Rightarrow> ToTextState \<Rightarrow> TextEvent \<Rightarrow> ToTextState" where
  "callEvent env ce cn result (AppendPart part customEmojiData) =
     appendPartCallback ce cn part customEmojiData result"
| "callEvent env ce cn result (ClickHandlerStart linkPosition type) =
     clickHandlerStartCallback type result"
| "callEvent env ce cn result (ClickHandlerFinish linkPosition blockPosition inText handler type) =
     clickHandlerFinishCallback env ce cn inText handler type result"
| "callEvent env ce cn result (FlagsChange oldFlags newFlags) =
     flagsChangeCallback cn oldFlags newFlags result"

definition isUrlType :: "EntityType \<Rightarrow> bool" where
  "isUrlType type =
     (type = EUrl \<or> type = ECustomUrl \<or> type = EBotCommand \<or> type = EMention
      \<or> type = EMentionName \<or> type = EHashtag \<or> type = ECashtag)"

definition proj :: "EntityInText \<Rightarrow> int \<times> int" where
  "proj entity = (e_offset entity, if isUrlType (e_type entity) then 0 else 1)"

definition pred :: "EntityInText \<Rightarrow> EntityInText \<Rightarrow> bool" where
  \<comment> \<open>the pairs are compared lexicographically\<close>
  "pred a b = (proj a < proj b)"

record TextForMimeData =
  expanded :: QString
  rich_text :: QString
  rich_entities :: "EntityInText list"

text \<open>The result of toText before the final sort of the entities.\<close>

definition toText_initial :: "bool \<Rightarrow> ToTextState" where
  \<comment> \<open>the locals of toText before the enumeration: an empty result, \<open>linkStart\<close> 0
      and the trackers\<close>
  "toText_initial composeEntities =
     \<lparr>tt_expanded = [], tt_text = [], tt_entities = [], tt_linkStart = 0,
      tt_trackers = (if composeEntities then markdownTrackers else [])\<rparr>"

definition toText_enumerated ::
  "Env \<Rightarrow> String \<Rightarrow> TextSelection \<Rightarrow> bool \<Rightarrow> bool \<Rightarrow> ToTextState option" where
  "toText_enumerated env s selection composeExpanded composeEntities =
     (case enumerateText s selection of
        None \<Rightarrow> None
      | Some events \<Rightarrow>
          Some (foldl (callEvent env composeExpanded composeEntities)
                  (toText_initial composeEntities) events))"

definition toText ::
  "Env \<Rightarrow> String \<Rightarrow> TextSelection \<Rightarrow> bool \<Rightarrow> bool \<Rightarrow> TextForMimeData option" where
  "toText env s selection composeExpanded composeEntities =
     (case toText_enumerated env s selection composeExpanded composeEntities of
        None \<Rightarrow> None
      | Some result \<Rightarrow>
          Some \<lparr>expanded = tt_expanded result,
                rich_text = tt_text result,
                rich_entities = (if composeEntities
                                 then std_sort env pred (tt_entities result)
                                 else tt_entities result)\<rparr>)"

definition toString :: "Env \<Rightarrow> String \<Rightarrow> TextSelection \<Rightarrow> QString option" where
  "toString env s selection = map_option rich_text (toText env s selection False False)"

definition toTextWithEntities ::
  "Env \<Rightarrow> String \<Rightarrow> TextSelection \<Rightarrow> (QString \<times> EntityInText list) option" where
  "toTextWithEntities env s selection =
     map_option (\<lambda>r. (rich_text r, rich_entities r)) (toText env s selection False True)"

subsection \<open>adjustSelection\<close>

datatype TextSelectType = Letters | Words | Paragraphs

text \<open>
  The two scanning loops. The backward one reads the character before \<open>from\<close>, which
  its callers keep inside the text. The forward one increments a 16-bit \<open>to\<close> below a
  text size that need not fit into 16 bits, so it may run forever; it is a partial
  function, \<open>None\<close> standing for no result.
\<close>

function scanBackward :: "(QChar \<Rightarrow> bool) \<Rightarrow> QString \<Rightarrow> uint16 \<Rightarrow> uint16" where
  "scanBackward isSeparator t from =
     (if from > 0 \<and> \<not> isSeparator (t ! (unat from - 1))
      then scanBackward isSeparator t (from - 1)
      else from)"
  by pat_completeness auto
termination
  by (relation "measure (\<lambda>(isSeparator, t, from). unat from)")
     (auto simp: unat_minus_one word_greater_zero_iff unat_gt_0)

declare scanBackward.simps [simp del]

partial_function (option) scanForward ::
  "(QChar \<Rightarrow> bool) \<Rightarrow> QString \<Rightarrow> uint16 \<Rightarrow> uint16 option" where
  "scanForward isSeparator t to =
     (if unat to < length t \<and> \<not> isSeparator (t ! unat to)
      then scanForward isSeparator t (to + 1)
      else Some to)"

declare scanForward.simps [code]

text \<open>
  The expansion to the next separators, which the source writes out twice: for words and
  for paragraphs. \<open>None\<close> is also the read of \<open>_text.at(from)\<close> outside the text.
\<close>

definition expandToSeparators ::
  "(QChar \<Rightarrow> bool) \<Rightarrow> QString \<Rightarrow> uint16 \<Rightarrow> uint16 \<Rightarrow> TextSelection option" where
  "expandToSeparators isSeparator t from to =
     (if unat from < length t
      then (let from1 = (if \<not> isSeparator (t ! unat from)
                         then scanBackward isSeparator t from else from)
            in if unat to < length t
               then (if isSeparator (t ! unat to)
                     then Some \<lparr>sel_from = from1, sel_to = to + 1\<rparr>
                     else (case scanForward isSeparator t to of
                             None \<Rightarrow> None
                           | Some to1 \<Rightarrow> Some \<lparr>sel_from = from1, sel_to = to1\<rparr>))
               else Some \<lparr>sel_from = from1, sel_to = to\<rparr>)
      else None)"

function trimSpaces :: "Env \<Rightarrow> QString \<Rightarrow> uint16 \<Rightarrow> uint16 option" where
  \<comment> \<open>\<open>None\<close> is the read of \<open>_text.at(to - 1)\<close> outside the text\<close>
  "trimSpaces env t to =
     (if to > 0
      then (if unat to - 1 < length t
            then (if IsSpace env (t ! (unat to - 1))
                  then trimSpaces env t (to - 1)
                  else Some to)
            else None)
      else Some to)"
  by pat_completeness auto
termination
  by (relation "measure (\<lambda>(env, t, to). unat to)")
     (auto simp: unat_minus_one word_greater_zero_iff unat_gt_0)

text \<open>
  The full selection of a monospace entity, tried first in paragraph mode: it either
  returns the selection, or leaves (possibly changed) bounds to the paragraph expansion.
\<close>

datatype MonoResult = MonoReturn TextSelection | MonoContinue uint16 uint16

definition monoEntitySelection ::
  "Env \<Rightarrow> String \<Rightarrow> uint16 \<Rightarrow> uint16 \<Rightarrow> MonoResult option" where
  "monoEntitySelection env s from to =
     (case dropWhile (\<lambda>b. b_position b < from) (m_blocks s) of
        [] \<Rightarrow> Some (MonoContinue from to)
      | b # rest \<Rightarrow>
          if \<not> IsMono (b_flags b) then Some (MonoContinue from to)
          else (case toTextWithEntities env s AllTextSelection of
                  None \<Rightarrow> None
                | Some (text, entities) \<Rightarrow>
                    (case find (\<lambda>e. (e_type e = EPre \<or> e_type e = ECode)
                                    \<and> uint from \<ge> e_offset e
                                    \<and> e_offset e + e_length e \<ge> uint to) entities of
                       None \<Rightarrow> Some (MonoContinue from to)
                     | Some e \<Rightarrow>
                         (let from1 = word_of_int (e_offset e);
                              to1 = word_of_int (e_offset e + e_length e)
                          in (case trimSpaces env (m_text s) to1 of
                                None \<Rightarrow> None
                              | Some to2 \<Rightarrow>
                                  if to2 \<ge> from1
                                  then Some (MonoReturn \<lparr>sel_from = from1, sel_to = to2\<rparr>)
                                  else Some (MonoContinue from1 to2))))))"

definition adjustSelection ::
  "Env \<Rightarrow> String \<Rightarrow> TextSelection \<Rightarrow> TextSelectType \<Rightarrow> TextSelection option" where
  "adjustSelection env s selection selectType =
     (let from = sel_from selection; to = sel_to selection
      in if unat from < length (m_text s) \<and> from \<le> to
         then (let to1 = (if unat to > length (m_text s)
                          then word_of_nat (length (m_text s)) else to)
               in (case selectType of
                     Paragraphs \<Rightarrow>
                       (case monoEntitySelection env s from to1 of
                          None \<Rightarrow> None
                        | Some (MonoReturn r) \<Rightarrow> Some r
                        | Some (MonoContinue from2 to2) \<Rightarrow>
                            expandToSeparators IsParagraphSeparator (m_text s) from2 to2)
                   | Words \<Rightarrow> expandToSeparators IsWordSeparator (m_text s) from to1
                   | Letters \<Rightarrow> Some \<lparr>sel_from = from, sel_to = to1\<rparr>))
         else Some \<lparr>sel_from = from, sel_to = to\<rparr>)"

subsection \<open>Example strings\<close>

text \<open>
  A style with a font height of 16 pixels; a pre-formatted paragraph gets 32 pixels of
  top padding and 12 of bottom padding, a block quote 6 and 6, both 10 on each side.
\<close>

definition ex_style :: TextStyle where
  "ex_style =
     \<lparr>st_lineHeight = 0, st_fontHeight = 16,
      st_pre = \<lparr>ps_padding = \<lparr>m_left = 10, m_top = 8, m_right = 10, m_bottom = 8\<rparr>,
                ps_verticalSkip = 4, ps_header = 20\<rparr>,
      st_blockquote = \<lparr>ps_padding = \<lparr>m_left = 10, m_top = 4, m_right = 10, m_bottom = 4\<rparr>,
                       ps_verticalSkip = 2, ps_header = 0\<rparr>\<rparr>"

definition ex_text_block :: "nat \<Rightarrow> QFixed \<Rightarrow> TextWord list \<Rightarrow> Block" where
  \<comment> \<open>a plain text block at a position, with its measured width and its words\<close>
  "ex_text_block pos width ws =
     \<lparr>b_type = BText, b_position = of_nat pos, b_flags = {}, b_linkIndex = 0,
      b_width = width, b_rbearing = 0, b_rpadding = 0, b_words = ws,
      b_paragraphIndex = 0, b_height = 0, b_entityData = []\<rparr>"

definition ex_ab_cd :: QString where
  \<comment> \<open>the text "ab cd"\<close>
  "ex_ab_cd = [97, 98, 32, 99, 100]"

definition ex_words_ab_cd :: "TextWord list" where
  \<comment> \<open>"ab " is 10 pixels wide with 4 pixels of trailing space, "cd" is 10 pixels wide\<close>
  "ex_words_ab_cd =
     [\<lparr>w_width = 640, w_rbearing = 0, w_rpadding = 256\<rparr>,
      \<lparr>w_width = 640, w_rbearing = 0, w_rpadding = 0\<rparr>]"

definition ex_plain :: String where
  \<comment> \<open>"ab cd" as one unframed text block of 24 pixels, with its natural size\<close>
  "ex_plain =
     \<lparr>m_text = ex_ab_cd, m_blocks = [ex_text_block 0 1536 ex_words_ab_cd],
      m_extended = None, m_st = ex_style, m_minResizeWidth = 0,
      m_maxWidth = 24, m_minHeight = 16, m_startParagraphIndex = 0,
      m_endsWithParagraphDetails = False, m_skipBlockAddedNewline = False\<rparr>"

definition ex_framed_unsized :: String where
  \<comment> \<open>"ab cd" as one text block in a pre-formatted paragraph that starts the string,
      as the parser leaves it before recountNaturalSize runs\<close>
  "ex_framed_unsized =
     \<lparr>m_text = ex_ab_cd, m_blocks = [ex_text_block 0 1536 ex_words_ab_cd],
      m_extended = Some \<lparr>ed_links = [], ed_paragraphs = [\<lparr>pd_pre = True\<rparr>]\<rparr>,
      m_st = ex_style, m_minResizeWidth = 0,
      m_maxWidth = 0, m_minHeight = 0, m_startParagraphIndex = 1,
      m_endsWithParagraphDetails = False, m_skipBlockAddedNewline = False\<rparr>"

definition ex_framed :: String where
  \<comment> \<open>the same string with the natural size recountNaturalSize computes for it\<close>
  "ex_framed =
     ex_framed_unsized\<lparr>m_minHeight := 92, m_maxWidth := 44,
                        m_endsWithParagraphDetails := True\<rparr>"

definition ex_empty :: String where
  \<comment> \<open>a string that was never given a text\<close>
  "ex_empty =
     \<lparr>m_text = [], m_blocks = [], m_extended = None, m_st = ex_style,
      m_minResizeWidth = 0, m_maxWidth = 0, m_minHeight = 0, m_startParagraphIndex = 0,
      m_endsWithParagraphDetails = False, m_skipBlockAddedNewline = False\<rparr>"

definition ex_quote :: String where
  \<comment> \<open>"ab cd" on a plain first line, a Newline into a block quote, "ab cd" again\<close>
  "ex_quote =
     \<lparr>m_text = ex_ab_cd @ [LineFeed] @ ex_ab_cd,
      m_blocks = [ex_text_block 0 1536 ex_words_ab_cd,
                  (Block_Newline 5)\<lparr>b_paragraphIndex := 1\<rparr>,
                  ex_text_block 6 1536 ex_words_ab_cd],
      m_extended = Some \<lparr>ed_links = [], ed_paragraphs = [\<lparr>pd_pre = False\<rparr>]\<rparr>,
      m_st = ex_style, m_minResizeWidth = 0,
      m_maxWidth = 44, m_minHeight = 44, m_startParagraphIndex = 0,
      m_endsWithParagraphDetails = True, m_skipBlockAddedNewline = False\<rparr>"

definition ex_quote_spacer :: String where
  \<comment> \<open>the two-paragraph example after \<open>updateSkipBlock 0 10\<close>: a Newline block and a
      Skip block of width 0 are appended\<close>
  "ex_quote_spacer = snd (the (updateSkipBlock ex_quote 0 10))"

definition ex_retexted :: String where
  \<comment> \<open>that string after \<open>setText\<close> with the plain text "ab cd", parsed into one text
      block\<close>
  "ex_retexted =
     the (setText ex_quote_spacer ex_style ex_ab_cd
            [ex_text_block 0 1536 ex_words_ab_cd] None 0)"

text \<open>
  Two sorting functions that meet the contract of \<open>std::sort\<close>: both sort by
  insertion from the right; the first puts an element in front of the elements that are
  not smaller, the second behind them.
\<close>

fun insort_by :: "('a \<Rightarrow> 'a \<Rightarrow> bool) \<Rightarrow> 'a \<Rightarrow> 'a list \<Rightarrow> 'a list" where
  "insort_by lt x [] = [x]"
| "insort_by lt x (y # ys) =
     (if lt y x then y # insort_by lt x ys else x # y # ys)"

definition insertion_sort :: "('a \<Rightarrow> 'a \<Rightarrow> bool) \<Rightarrow> 'a list \<Rightarrow> 'a list" where
  "insertion_sort lt xs = foldr (insort_by lt) xs []"



definition ex_env :: Env where
  \<comment> \<open>an environment: the ASCII white space, the first sorting function, no URL
      encoding\<close>
  "ex_env =
     \<lparr>qt_isSpace = (\<lambda>ch. ch = 32 \<or> (9 \<le> ch \<and> ch \<le> 13)),
      std_sort = insertion_sort,
      EncodeForOpening = (\<lambda>url. url)\<rparr>"



definition ex_a_b :: String where
  \<comment> \<open>the text "a b" as one text block\<close>
  "ex_a_b =
     \<lparr>m_text = [97, 32, 98],
      m_blocks = [ex_text_block 0 1024
                    [\<lparr>w_width = 384, w_rbearing = 0, w_rpadding = 256\<rparr>,
                     \<lparr>w_width = 384, w_rbearing = 0, w_rpadding = 0\<rparr>]],
      m_extended = None, m_st = ex_style, m_minResizeWidth = 0,
      m_maxWidth = 16, m_minHeight = 16, m_startParagraphIndex = 0,
      m_endsWithParagraphDetails = False, m_skipBlockAddedNewline = False\<rparr>"

definition blocksCoverText :: "String \<Rightarrow> bool" where
  \<comment> \<open>the invariant of the block list: positions are 16-bit offsets into the text that
      start at 0 and never decrease, and a Skip block is the last block and covers the
      one sentinel character at the end of the text\<close>
  "blocksCoverText s =
     (length (m_text s) < 65535
      \<and> (m_blocks s = [] \<longrightarrow> m_text s = [])
      \<and> (m_blocks s \<noteq> [] \<longrightarrow> b_position (hd (m_blocks s)) = 0)
      \<and> sorted (map (\<lambda>b. unat (b_position b)) (m_blocks s))
      \<and> list_all (\<lambda>b. unat (b_position b) \<le> length (m_text s)) (m_blocks s)
      \<and> list_all (\<lambda>b. b_type b \<noteq> BSkip) (butlast (m_blocks s))
      \<and> (hasSkipBlock s \<longrightarrow> unat (b_position (last (m_blocks s))) + 1 = length (m_text s)))"

definition linksValid :: "String \<Rightarrow> bool" where
  \<comment> \<open>every link index of a block is 0 or the index of an entry of the link table\<close>
  "linksValid s =
     list_all (\<lambda>b. case m_extended s of
                     None \<Rightarrow> True
                   | Some ext \<Rightarrow> b_linkIndex b \<le> length (ed_links ext))
       (m_blocks s)"

fun eventPart :: "TextEvent \<Rightarrow> QString" where
  "eventPart (AppendPart part customEmojiData) = part"
| "eventPart (ClickHandlerStart linkPosition type) = []"
| "eventPart (ClickHandlerFinish linkPosition blockPosition inText handler type) = []"
| "eventPart (FlagsChange oldFlags newFlags) = []"

definition ex_links :: String where
  \<comment> \<open>"ab cd ef": "ab " is an internal custom link, "cd " a custom link to "u", and
      "ef" has no link\<close>
  "ex_links =
     \<lparr>m_text = [97, 98, 32, 99, 100, 32, 101, 102],
      m_blocks =
        [(ex_text_block 0 896 [\<lparr>w_width = 640, w_rbearing = 0, w_rpadding = 256\<rparr>])
           \<lparr>b_linkIndex := 1\<rparr>,
         (ex_text_block 3 896 [\<lparr>w_width = 640, w_rbearing = 0, w_rpadding = 256\<rparr>])
           \<lparr>b_linkIndex := 2\<rparr>,
         ex_text_block 6 640 [\<lparr>w_width = 640, w_rbearing = 0, w_rpadding = 0\<rparr>]],
      m_extended = Some
        \<lparr>ed_links = [Some \<lparr>ch_type = ECustomUrl, ch_data = internalPrefix @ [120]\<rparr>,
                     Some \<lparr>ch_type = ECustomUrl, ch_data = [117]\<rparr>],
         ed_paragraphs = []\<rparr>,
      m_st = ex_style, m_minResizeWidth = 0,
      m_maxWidth = 38, m_minHeight = 16, m_startParagraphIndex = 0,
      m_endsWithParagraphDetails = False, m_skipBlockAddedNewline = False\<rparr>"


section \<open>Properties\<close>

subsection \<open>The short-circuit of countWidth and countHeight\<close>

lemma ex_plain_recounted: "recountNaturalSize ex_plain = Some ex_plain"
  by (simp add: recountNaturalSize_def ex_plain_def ex_text_block_def ex_words_ab_cd_def
      ex_style_def paragraphIndex_def paragraphByIndex_def paragraphPadding_def
      QMargins_zero_def QFixed_fromInt_def QFixed_toInt_def QFixed_ceil_def
      recount_block_def CountBlockHeight_def)




subsection \<open>Natural size against the line breaker\<close>

lemma ex_framed_recounted: "recountNaturalSize ex_framed_unsized = Some ex_framed"
  by code_simp

text \<open>
  C2. The sum of the line heights enumerateLines emits at the natural maximum width should
  equal the minimum height recountNaturalSize computes. For a string that starts inside a
  framed paragraph and never leaves it, recountNaturalSize counts the top padding twice
  (once when it initialises the height, once more after the loop), while enumerateLines
  counts it once: here 92 against 60.
\<close>

theorem natural_height_counts_start_padding_twice:
  "m_minHeight (the (recountNaturalSize ex_framed_unsized)) = 92
   \<and> m_maxWidth (the (recountNaturalSize ex_framed_unsized)) = 44
   \<and> map_option (\<lambda>ls. sum_list (map line_height ls))
        (enumerateLines (the (recountNaturalSize ex_framed_unsized)) 44 False) = Some 60"
  by code_simp

text \<open>
  C3. countHeight should not grow when the width grows. On the same string the width 44
  takes the short-circuit and returns the cached 92, while the narrower width 43 is laid
  out in two lines whose heights add up to 76.
\<close>

theorem countHeight_smaller_at_narrower_width:
  "countHeight ex_framed 43 False = Some 76 \<and> countHeight ex_framed 44 False = Some 92"
  by code_simp


subsection \<open>Updating and removing the trailing Skip block\<close>

lemma recount_newline_reads:
  "m_st a = m_st b \<Longrightarrow> m_extended a = m_extended b \<Longrightarrow> recount_newline a x r = recount_newline b x r"
  by (simp add: recount_newline_def paragraphByIndex_def paragraphIndex_def paragraphPadding_def
      Let_def split: option.splits)

lemma recount_block_reads:
  "m_st a = m_st b \<Longrightarrow> recount_block a x r = recount_block b x r"
  by (simp add: recount_block_def)

lemma recount_loop_reads:
  "m_st a = m_st b \<Longrightarrow> m_extended a = m_extended b \<Longrightarrow> recount_loop a bs r = recount_loop b bs r"
proof (induction bs arbitrary: r)
  case Nil
  show ?case by simp
next
  case (Cons x bs)
  have n: "recount_newline a x r = recount_newline b x r"
    using Cons.prems by (rule recount_newline_reads)
  have k: "recount_block a x r = recount_block b x r"
    using Cons.prems(1) by (rule recount_block_reads)
  show ?case
    using Cons.IH [OF Cons.prems] by (simp add: n k split: option.splits)
qed

lemma recount_loop_append:
  "recount_loop s (xs @ ys) r =
     (case recount_loop s xs r of None \<Rightarrow> None | Some r1 \<Rightarrow> recount_loop s ys r1)"
  by (induction xs arbitrary: r) (auto split: option.splits)

lemma recount_newline_valid:
  "paragraphIndexValid s (b_paragraphIndex x) \<Longrightarrow> \<exists>r1. recount_newline s x r = Some r1"
  by (auto simp: recount_newline_def paragraphIndexValid_def paragraphByIndex_def
      paragraphIndex_def Let_def split: option.splits)

lemma recount_loop_valid:
  "list_all (\<lambda>b. b_type b = BNewline \<longrightarrow> paragraphIndexValid s (b_paragraphIndex b)) bs
   \<Longrightarrow> \<exists>r1. recount_loop s bs r = Some r1"
proof (induction bs arbitrary: r)
  case Nil
  show ?case by simp
next
  case (Cons x bs)
  show ?case
  proof (cases "b_type x = BNewline")
    case True
    then obtain r1 where "recount_newline s x r = Some r1"
      using Cons.prems recount_newline_valid by fastforce
    then show ?thesis using True Cons by simp
  next
    case False
    then show ?thesis using Cons by simp
  qed
qed

lemma paragraphByIndex_valid:
  "paragraphIndexValid s i \<Longrightarrow> \<exists>p. paragraphByIndex s i = Some p"
  by (auto simp: paragraphIndexValid_def paragraphByIndex_def split: option.splits)

lemma recountNaturalSize_valid:
  assumes "paragraphsValid s" "m_blocks s \<noteq> []"
  shows "\<exists>s'. recountNaturalSize s = Some s'"
proof -
  obtain p where p: "paragraphByIndex s (m_startParagraphIndex s) = Some p"
    using assms(1) paragraphByIndex_valid by (auto simp: paragraphsValid_def)
  have "\<And>r. \<exists>r1. recount_loop s (m_blocks s) r = Some r1"
    using assms(1) recount_loop_valid by (simp add: paragraphsValid_def)
  then show ?thesis
    using p assms(2)
    by (simp add: recountNaturalSize_def paragraphIndex_def Let_def split: option.splits) 
qed

lemma recountNaturalSize_reads:
  assumes "m_blocks a = m_blocks b" "m_st a = m_st b" "m_extended a = m_extended b"
    "m_startParagraphIndex a = m_startParagraphIndex b"
  shows "recountNaturalSize a =
     map_option (\<lambda>r. a\<lparr>m_minHeight := m_minHeight r, m_maxWidth := m_maxWidth r,
                         m_endsWithParagraphDetails := m_endsWithParagraphDetails r\<rparr>)
       (recountNaturalSize b)"
proof -
  have l: "\<And>r. recount_loop a (m_blocks b) r = recount_loop b (m_blocks b) r"
    using assms(2,3) by (rule recount_loop_reads)
  have p: "paragraphByIndex a = paragraphByIndex b"
    using assms(3) by (simp add: paragraphByIndex_def fun_eq_iff)
  have q: "paragraphPadding a = paragraphPadding b"
    using assms(2) by (simp add: paragraphPadding_def fun_eq_iff Let_def split: option.splits)
  show ?thesis
    unfolding recountNaturalSize_def
    by (simp add: assms l p q paragraphIndex_def Let_def split: option.splits)
qed


lemma recountNaturalSize_frame:
  assumes "recountNaturalSize s = Some s'"
  shows "m_text s' = m_text s \<and> m_blocks s' = m_blocks s \<and> m_extended s' = m_extended s
       \<and> m_st s' = m_st s \<and> m_minResizeWidth s' = m_minResizeWidth s
       \<and> m_startParagraphIndex s' = m_startParagraphIndex s
       \<and> m_skipBlockAddedNewline s' = m_skipBlockAddedNewline s"
  using assms
  by (auto simp: recountNaturalSize_def Let_def split: option.splits if_splits)

lemma QString_resize_append:
  "QString_resize (t @ u) (int (length t)) = t"
  by (simp add: QString_resize_def)

lemma uint_position:
  "n < 65536 \<Longrightarrow> uint (word_of_nat n :: uint16) = int n"
  by (simp add: uint_nat unat_of_nat)

lemma uint_position_Suc:
  "n < 65535 \<Longrightarrow> uint (word_of_nat n + 1 :: uint16) = int n + 1"
  using uint_position [of "Suc n"] by (simp add: add.commute)

lemma update_fresh:
  assumes ns: "\<not> hasSkipBlock s" and pv: "paragraphsValid s"
  defines "nl \<equiv> (if m_endsWithParagraphDetails s
                  then [Block_Newline (word_of_int (int (length (m_text s))))] else [])"
  defines "nlt \<equiv> (if m_endsWithParagraphDetails s then [LineFeed] else [])"
  shows "\<exists>s1. updateSkipBlock s w h = Some (True, s1)
          \<and> m_blocks s1 = m_blocks s @ nl
               @ [Block_Skip (word_of_int (int (length (m_text s @ nlt)))) w h]
          \<and> m_text s1 = m_text s @ nlt @ [95]
          \<and> m_extended s1 = m_extended s \<and> m_st s1 = m_st s
          \<and> m_minResizeWidth s1 = m_minResizeWidth s
          \<and> m_startParagraphIndex s1 = m_startParagraphIndex s
          \<and> m_skipBlockAddedNewline s1
              = (m_endsWithParagraphDetails s \<or> m_skipBlockAddedNewline s)"
proof -
  let ?s2 = "s\<lparr>m_skipBlockAddedNewline :=
                 (m_endsWithParagraphDetails s \<or> m_skipBlockAddedNewline s),
               m_text := m_text s @ nlt @ [95],
               m_blocks := m_blocks s @ nl
                 @ [Block_Skip (word_of_int (int (length (m_text s @ nlt)))) w h]\<rparr>"
  have no: "\<not> (m_blocks s \<noteq> [] \<and> b_type (last (m_blocks s)) = BSkip)"
    using ns by (simp add: hasSkipBlock_def)
  have upd: "updateSkipBlock s w h =
      (case recountNaturalSize ?s2 of None \<Rightarrow> None | Some s3 \<Rightarrow> Some (True, s3))"
  proof (cases "m_blocks s = []")
    case True
    then show ?thesis
      unfolding updateSkipBlock_def nl_def nlt_def
      by (cases "m_endsWithParagraphDetails s") (simp_all add: Let_def)
  next
    case False
    then have "b_type (last (m_blocks s)) \<noteq> BSkip"
      using no by simp
    then show ?thesis
      unfolding updateSkipBlock_def nl_def nlt_def
      by (cases "m_endsWithParagraphDetails s") (simp_all add: Let_def)
  qed
  have "paragraphsValid ?s2"
    using pv
    by (simp add: paragraphsValid_def paragraphIndexValid_def nl_def Block_Newline_def
        Block_Skip_def)
  moreover have "m_blocks ?s2 \<noteq> []" by simp
  ultimately obtain s3 where s3: "recountNaturalSize ?s2 = Some s3"
    using recountNaturalSize_valid by blast
  show ?thesis
    using upd s3 recountNaturalSize_frame [OF s3] by simp
qed


lemma update_replace:
  assumes hs: "hasSkipBlock s" and pv: "paragraphsValid s"
    and diff: "\<not> (QFixed_toInt (b_width (last (m_blocks s))) = w
                  \<and> b_height (last (m_blocks s)) = h)"
  shows "\<exists>s1 t. updateSkipBlock s w h = Some (True, s1)
          \<and> m_text s1 = t @ [95]
          \<and> m_blocks s1 = butlast (m_blocks s) @ [Block_Skip (word_of_nat (length t)) w h]"
proof -
  let ?t = "QString_resize (m_text s) (uint (b_position (last (m_blocks s))))"
  let ?s2 = "s\<lparr>m_text := ?t @ [95],
               m_blocks := butlast (m_blocks s) @ [Block_Skip (word_of_nat (length ?t)) w h]\<rparr>"
  have sk: "m_blocks s \<noteq> []" "b_type (last (m_blocks s)) = BSkip"
    using hs by (simp_all add: hasSkipBlock_def)
  have upd: "updateSkipBlock s w h =
      (case recountNaturalSize ?s2 of None \<Rightarrow> None | Some s3 \<Rightarrow> Some (True, s3))"
    using sk diff unfolding updateSkipBlock_def by (auto simp: Let_def)
  have "list_all (\<lambda>b. b_type b = BNewline \<longrightarrow> paragraphIndexValid s (b_paragraphIndex b))
          (butlast (m_blocks s))"
    using pv by (auto simp: paragraphsValid_def list_all_iff dest: in_set_butlastD)
  then have "paragraphsValid ?s2"
    using pv by (simp add: paragraphsValid_def paragraphIndexValid_def Block_Skip_def)
  moreover have "m_blocks ?s2 \<noteq> []" by simp
  ultimately obtain s3 where s3: "recountNaturalSize ?s2 = Some s3"
    using recountNaturalSize_valid by blast
  show ?thesis
    using upd s3 recountNaturalSize_frame [OF s3] by simp
qed

lemma remove_after_update:
  assumes ns: "\<not> hasSkipBlock s" and pv: "paragraphsValid s"
    and sized: "recountNaturalSize s = Some s"
    and flag: "\<not> m_skipBlockAddedNewline s"
    and len: "length (m_text s) < 65534"
    and upd: "updateSkipBlock s w h = Some (True, s1)"
  shows "removeSkipBlock s1 = Some (True, s)"
proof -
  let ?nl = "if m_endsWithParagraphDetails s
             then [Block_Newline (word_of_int (int (length (m_text s))))] else []"
  let ?nlt = "if m_endsWithParagraphDetails s then [LineFeed] else []"
  let ?skip = "Block_Skip (word_of_int (int (length (m_text s @ ?nlt)))) w h"
  have f: "m_blocks s1 = m_blocks s @ ?nl @ [?skip]"
    "m_text s1 = m_text s @ ?nlt @ [95]"
    "m_extended s1 = m_extended s" "m_st s1 = m_st s"
    "m_minResizeWidth s1 = m_minResizeWidth s"
    "m_startParagraphIndex s1 = m_startParagraphIndex s"
    "m_skipBlockAddedNewline s1 = m_endsWithParagraphDetails s"
    using update_fresh [OF ns pv, of w h] upd flag by auto
  define p where "p = uint (b_position (last (m_blocks s1)))"
  define s4 where "s4 =
            (if m_skipBlockAddedNewline s1
             then s1\<lparr>m_text := QString_resize (m_text s1) (p - 1),
                     m_blocks := butlast (butlast (m_blocks s1)),
                     m_skipBlockAddedNewline := False\<rparr>
             else s1\<lparr>m_text := QString_resize (m_text s1) p,
                     m_blocks := butlast (m_blocks s1)\<rparr>)"
  have last: "last (m_blocks s1) = ?skip"
    by (simp add: f)
  have "uint (b_position ?skip) = int (length (m_text s @ ?nlt))"
    using len by (simp add: Block_Skip_def uint_position uint_position_Suc)
  then have pos: "p = int (length (m_text s @ ?nlt))"
    by (simp only: p_def last)
  have sk: "m_blocks s1 \<noteq> []" "b_type (last (m_blocks s1)) = BSkip"
    by (simp_all add: f Block_Skip_def)
  have rm: "removeSkipBlock s1 =
      (case recountNaturalSize s4 of None \<Rightarrow> None | Some s2 \<Rightarrow> Some (True, s2))"
    unfolding removeSkipBlock_def Let_def p_def [symmetric] s4_def
    by (simp only: sk) simp
  have t4: "m_text s4 = m_text s"
    by (simp add: s4_def pos f QString_resize_def)
  have b4: "m_blocks s4 = m_blocks s"
    by (simp add: s4_def f butlast_append)
  have o4: "m_extended s4 = m_extended s" "m_st s4 = m_st s"
    "m_minResizeWidth s4 = m_minResizeWidth s"
    "m_startParagraphIndex s4 = m_startParagraphIndex s"
    "m_skipBlockAddedNewline s4 = m_skipBlockAddedNewline s"
    using flag by (simp_all add: s4_def f)
  have "recountNaturalSize s4 =
      map_option (\<lambda>r. s4\<lparr>m_minHeight := m_minHeight r, m_maxWidth := m_maxWidth r,
                          m_endsWithParagraphDetails := m_endsWithParagraphDetails r\<rparr>)
        (recountNaturalSize s)"
    by (rule recountNaturalSize_reads) (simp_all only: b4 o4)
  also have "\<dots> = Some (s4\<lparr>m_minHeight := m_minHeight s, m_maxWidth := m_maxWidth s,
                          m_endsWithParagraphDetails := m_endsWithParagraphDetails s\<rparr>)"
    by (simp only: sized option.map)
  also have "s4\<lparr>m_minHeight := m_minHeight s, m_maxWidth := m_maxWidth s,
                 m_endsWithParagraphDetails := m_endsWithParagraphDetails s\<rparr> = s"
    by (rule String.equality) (simp_all add: t4 b4 o4)
  finally show ?thesis
    using rm by simp
qed


lemma update_unchanged:
  "hasSkipBlock s \<and> QFixed_toInt (b_width (last (m_blocks s))) = w
     \<and> b_height (last (m_blocks s)) = h
   \<Longrightarrow> updateSkipBlock s w h = Some (False, s)"
  by (simp add: updateSkipBlock_def hasSkipBlock_def)

lemma remove_false_iff:
  "(\<exists>s'. removeSkipBlock s = Some (False, s')) \<longleftrightarrow> \<not> hasSkipBlock s"
  by (auto simp: removeSkipBlock_def hasSkipBlock_def Let_def split: option.splits)


lemma ex_quote_recounted: "recountNaturalSize ex_quote = Some ex_quote"
  by code_simp

text \<open>
  The two functions where \<open>_skipBlockAddedNewline\<close> is not set beforehand. When the last
  block is a Skip block whose width rounds to w and whose height is h, updateSkipBlock w h
  returns false and leaves the string as it is. In every other case, for a string whose
  paragraph indices are valid, it returns true and the last block is then a Skip block of
  that size at the last character of the text; on a string without a Skip block the block
  is appended, after a Newline block when the string ends with paragraph details.
  removeSkipBlock then restores the string it was appended to, given that its cached
  natural size was up to date, that the flag was not set and that the positions fit into
  16 bits; and removeSkipBlock returns false exactly when there is no trailing Skip block.
\<close>

theorem skip_block_update_and_remove:
  "(hasSkipBlock s \<and> QFixed_toInt (b_width (last (m_blocks s))) = w
      \<and> b_height (last (m_blocks s)) = h
    \<longrightarrow> updateSkipBlock s w h = Some (False, s))
   \<and> (\<not> (hasSkipBlock s \<and> QFixed_toInt (b_width (last (m_blocks s))) = w
            \<and> b_height (last (m_blocks s)) = h)
        \<and> paragraphsValid s
      \<longrightarrow> (\<exists>s1. updateSkipBlock s w h = Some (True, s1)
             \<and> hasSkipBlock s1
             \<and> last (m_blocks s1)
                 = Block_Skip (word_of_int (int (length (m_text s1)) - 1)) w h
             \<and> (\<not> hasSkipBlock s \<and> m_endsWithParagraphDetails s
                  \<longrightarrow> m_text s1 = m_text s @ [LineFeed, 95]
                    \<and> m_blocks s1 = m_blocks s
                        @ [Block_Newline (word_of_nat (length (m_text s))),
                           last (m_blocks s1)])
             \<and> (\<not> hasSkipBlock s \<and> \<not> m_endsWithParagraphDetails s
                  \<longrightarrow> m_text s1 = m_text s @ [95]
                    \<and> m_blocks s1 = m_blocks s @ [last (m_blocks s1)])
             \<and> (\<not> hasSkipBlock s \<and> recountNaturalSize s = Some s
                  \<and> \<not> m_skipBlockAddedNewline s \<and> length (m_text s) < 65534
                  \<longrightarrow> removeSkipBlock s1 = Some (True, s))))
   \<and> ((\<exists>s'. removeSkipBlock s = Some (False, s')) \<longleftrightarrow> \<not> hasSkipBlock s)"
proof (intro conjI impI)
  assume "hasSkipBlock s \<and> QFixed_toInt (b_width (last (m_blocks s))) = w
      \<and> b_height (last (m_blocks s)) = h"
  then show "updateSkipBlock s w h = Some (False, s)"
    by (rule update_unchanged)
next
  show "(\<exists>s'. removeSkipBlock s = Some (False, s')) \<longleftrightarrow> \<not> hasSkipBlock s"
    by (rule remove_false_iff)
next
  assume a: "\<not> (hasSkipBlock s \<and> QFixed_toInt (b_width (last (m_blocks s))) = w
            \<and> b_height (last (m_blocks s)) = h) \<and> paragraphsValid s"
  then have pv: "paragraphsValid s" by simp
  show "\<exists>s1. updateSkipBlock s w h = Some (True, s1)
             \<and> hasSkipBlock s1
             \<and> last (m_blocks s1)
                 = Block_Skip (word_of_int (int (length (m_text s1)) - 1)) w h
             \<and> (\<not> hasSkipBlock s \<and> m_endsWithParagraphDetails s
                  \<longrightarrow> m_text s1 = m_text s @ [LineFeed, 95]
                    \<and> m_blocks s1 = m_blocks s
                        @ [Block_Newline (word_of_nat (length (m_text s))),
                           last (m_blocks s1)])
             \<and> (\<not> hasSkipBlock s \<and> \<not> m_endsWithParagraphDetails s
                  \<longrightarrow> m_text s1 = m_text s @ [95]
                    \<and> m_blocks s1 = m_blocks s @ [last (m_blocks s1)])
             \<and> (\<not> hasSkipBlock s \<and> recountNaturalSize s = Some s
                  \<and> \<not> m_skipBlockAddedNewline s \<and> length (m_text s) < 65534
                  \<longrightarrow> removeSkipBlock s1 = Some (True, s))"
  proof (cases "hasSkipBlock s")
    case True
    then have "\<not> (QFixed_toInt (b_width (last (m_blocks s))) = w
                  \<and> b_height (last (m_blocks s)) = h)"
      using a by simp
    from update_replace [OF True pv this]
    obtain s1 t where s1: "updateSkipBlock s w h = Some (True, s1)"
      "m_text s1 = t @ [95]"
      "m_blocks s1 = butlast (m_blocks s) @ [Block_Skip (word_of_nat (length t)) w h]"
      by blast
    have "hasSkipBlock s1"
      by (simp add: hasSkipBlock_def s1 Block_Skip_def)
    moreover have "last (m_blocks s1)
        = Block_Skip (word_of_int (int (length (m_text s1)) - 1)) w h"
      by (simp add: s1)
    ultimately show ?thesis
      using s1(1) True by simp
  next
    case False
    from update_fresh [OF False pv, of w h]
    obtain s1 where s1: "updateSkipBlock s w h = Some (True, s1)"
      "m_blocks s1 = m_blocks s
         @ (if m_endsWithParagraphDetails s
            then [Block_Newline (word_of_int (int (length (m_text s))))] else [])
         @ [Block_Skip (word_of_int (int (length (m_text s
              @ (if m_endsWithParagraphDetails s then [LineFeed] else []))))) w h]"
      "m_text s1 = m_text s @ (if m_endsWithParagraphDetails s then [LineFeed] else []) @ [95]"
      by blast
    have h1: "hasSkipBlock s1"
      by (simp add: hasSkipBlock_def s1 Block_Skip_def)
    have h2: "last (m_blocks s1)
        = Block_Skip (word_of_int (int (length (m_text s1)) - 1)) w h"
      by (simp add: s1)
    have h3: "recountNaturalSize s = Some s \<and> \<not> m_skipBlockAddedNewline s
        \<and> length (m_text s) < 65534 \<longrightarrow> removeSkipBlock s1 = Some (True, s)"
      using remove_after_update [OF False pv _ _ _ s1(1)] by blast
    show ?thesis
      using s1 h1 h2 h3 False by (intro exI [of _ s1]) simp
  qed
qed

theorem skip_block_update_and_remove_witness:
  "paragraphsValid ex_quote \<and> \<not> hasSkipBlock ex_quote
   \<and> recountNaturalSize ex_quote = Some ex_quote
   \<and> \<not> m_skipBlockAddedNewline ex_quote \<and> length (m_text ex_quote) < 65534
   \<and> (\<exists>s1. updateSkipBlock ex_quote 30 10 = Some (True, s1)
         \<and> hasSkipBlock s1
         \<and> m_text s1 = m_text ex_quote @ [LineFeed, 95]
         \<and> removeSkipBlock s1 = Some (True, ex_quote)
         \<and> updateSkipBlock s1 30 10 = Some (False, s1))"
proof -
  have a: "paragraphsValid ex_quote" by code_simp
  have b: "\<not> hasSkipBlock ex_quote" by code_simp
  have c: "m_endsWithParagraphDetails ex_quote" by code_simp
  have d: "\<not> m_skipBlockAddedNewline ex_quote" by code_simp
  have e: "length (m_text ex_quote) < 65534"
    by (simp add: ex_quote_def ex_ab_cd_def)
  note r = ex_quote_recounted
  from skip_block_update_and_remove [of ex_quote 30 10] a b
  obtain s1 where s1: "updateSkipBlock ex_quote 30 10 = Some (True, s1)"
    "hasSkipBlock s1"
    "last (m_blocks s1) = Block_Skip (word_of_int (int (length (m_text s1)) - 1)) 30 10"
    and nl: "\<not> hasSkipBlock ex_quote \<and> m_endsWithParagraphDetails ex_quote
       \<longrightarrow> m_text s1 = m_text ex_quote @ [LineFeed, 95]
         \<and> m_blocks s1 = m_blocks ex_quote
              @ [Block_Newline (word_of_nat (length (m_text ex_quote))), last (m_blocks s1)]"
    and rm: "\<not> hasSkipBlock ex_quote \<and> recountNaturalSize ex_quote = Some ex_quote
        \<and> \<not> m_skipBlockAddedNewline ex_quote \<and> length (m_text ex_quote) < 65534
       \<longrightarrow> removeSkipBlock s1 = Some (True, ex_quote)"
    by blast
  have t1: "m_text s1 = m_text ex_quote @ [LineFeed, 95]"
    using nl b c by blast
  have r1: "removeSkipBlock s1 = Some (True, ex_quote)"
    using rm b r d e by blast
  have "QFixed_toInt (b_width (last (m_blocks s1))) = 30 \<and> b_height (last (m_blocks s1)) = 10"
    by (simp add: s1(3) Block_Skip_def QFixed_toInt_def QFixed_fromInt_def)
  with skip_block_update_and_remove [of s1 30 10] s1(2)
  have u1: "updateSkipBlock s1 30 10 = Some (False, s1)"
    by blast
  show ?thesis
    using a b r d e s1(1,2) t1 r1 u1 by blast
qed


text \<open>
  C10. removeSkipBlock does not undo the insertion on a string that was given a new text
  after an earlier updateSkipBlock had added a Newline block. \<open>clear\<close> leaves
  \<open>_skipBlockAddedNewline\<close> set; on the new text "ab cd", which does not end with
  paragraph details, updateSkipBlock 30 10 returns true and appends the Skip block alone;
  removeSkipBlock then takes the set flag for an added Newline block, removes two blocks
  and two characters, and leaves the text "ab c" without any block instead of "ab cd"
  with its text block.
\<close>

theorem removeSkipBlock_after_setText_cuts_text:
  "updateSkipBlock ex_quote 0 10 = Some (True, ex_quote_spacer)
   \<and> m_skipBlockAddedNewline ex_quote_spacer
   \<and> setText ex_quote_spacer ex_style ex_ab_cd [ex_text_block 0 1536 ex_words_ab_cd] None 0
       = Some ex_retexted
   \<and> m_text ex_retexted = [97, 98, 32, 99, 100]
   \<and> m_blocks ex_retexted = [ex_text_block 0 1536 ex_words_ab_cd]
   \<and> \<not> m_endsWithParagraphDetails ex_retexted
   \<and> m_skipBlockAddedNewline ex_retexted
   \<and> map_option (\<lambda>(r, s1). (r, m_text s1, map b_type (m_blocks s1)))
         (updateSkipBlock ex_retexted 30 10)
       = Some (True, [97, 98, 32, 99, 100, 95], [BText, BSkip])
   \<and> map_option (\<lambda>(r, s2). (r, m_text s2, m_blocks s2))
         (removeSkipBlock (snd (the (updateSkipBlock ex_retexted 30 10))))
       = Some (True, [97, 98, 32, 99], [])"
  by code_simp


subsection \<open>Every unit is placed on one line\<close>

lemma emitted_word_place [simp]:
  "emittedUnits (word_place bh u j st) = emittedUnits st"
  by (simp add: emittedUnits_def word_place_def)

lemma units_word_place [simp]:
  "ls_units (word_place bh u j st) = ls_units st @ [u]"
  by (simp add: word_place_def)

lemma emitted_word_break [simp]:
  "emittedUnits (word_break width bh u e j st) = emittedUnits st @ ls_units st"
  by (simp add: emittedUnits_def word_break_def callback_def Let_def)

lemma units_word_break [simp]:
  "ls_units (word_break width bh u e j st) = [u]"
  by (simp add: word_break_def callback_def Let_def)

lemma upt_words_step:
  "length js \<le> length ws \<Longrightarrow> js = j # jrest \<Longrightarrow>
   map (UWord bi) [0..<length ws - length jrest]
     = map (UWord bi) [0..<length ws - length js] @ [UWord bi (length ws - length js)]"
proof -
  assume a: "length js \<le> length ws" "js = j # jrest"
  then have "length ws - length jrest = Suc (length ws - length js)"
    by simp
  then show ?thesis by simp
qed

lemma words_loop_Nil:
  "words_loop width be bh bi ws [] fs fw fl fu st = st"
  by (subst words_loop.simps) simp

lemma words_loop_Cons:
  "words_loop width be bh bi ws (j # jrest) fs fw fl fu st =
     (if word_newWidthLeft st j \<ge> 0
      then
        (let st1 = word_place bh (UWord bi (length ws - length (j # jrest))) j st
         in if w_width j \<ge> 0 \<or> ls_longWordLine st1
            then words_loop width be bh bi ws jrest jrest
                   (ls_widthLeft st1) (ls_lineHeight st1) (ls_units st1) st1
            else words_loop width be bh bi ws jrest fs fw fl fu st1)
      else if length fs \<noteq> length (j # jrest) \<and> \<not> be
      then
        (case fs of
           [] \<Rightarrow> st
         | f # frest \<Rightarrow>
             (let st1 = word_break width bh (UWord bi (length ws - length fs))
                          (w_width j \<ge> 0) f
                          (st\<lparr>ls_widthLeft := fw, ls_lineHeight := fl, ls_units := fu\<rparr>)
              in words_loop width be bh bi ws frest frest
                   (ls_widthLeft st1) (ls_lineHeight st1) (ls_units st1) st1))
      else
        (let st1 = word_break width bh (UWord bi (length ws - length (j # jrest)))
                     (w_width j \<ge> 0) j st
         in words_loop width be bh bi ws jrest jrest
              (ls_widthLeft st1) (ls_lineHeight st1) (ls_units st1) st1))"
  by (subst words_loop.simps) simp

lemma words_loop_units:
  assumes "length js \<le> length fs" "length fs \<le> length ws"
    and "emittedUnits st @ ls_units st = P @ map (UWord bi) [0..<length ws - length js]"
    and "emittedUnits st @ f_units = P @ map (UWord bi) [0..<length ws - length fs]"
  shows "emittedUnits (words_loop width be bh bi ws js fs fw fl f_units st)
           @ ls_units (words_loop width be bh bi ws js fs fw fl f_units st)
         = P @ map (UWord bi) [0..<length ws]"
  using assms
proof (induction width be bh bi ws js fs fw fl f_units st rule: words_loop.induct)
  case (1 width be bh bi ws js fs fw fl f_units st)
  show ?case
  proof (cases js)
    case Nil
    then show ?thesis
      using "1.prems"(3) by (simp add: words_loop_Nil)
  next
    case (Cons j jrest)
    have lj: "length js \<le> length ws"
      using "1.prems"(1,2) by simp
    note step = upt_words_step [OF lj Cons, of bi]
    show ?thesis
    proof (cases "0 \<le> word_newWidthLeft st j")
      case fit: True
      let ?st1 = "word_place bh (UWord bi (length ws - length js)) j st"
      have u1: "emittedUnits ?st1 @ ls_units ?st1
                  = P @ map (UWord bi) [0..<length ws - length jrest]"
        using "1.prems"(3) by (simp add: step)
      show ?thesis
      proof (cases "0 \<le> w_width j \<or> ls_longWordLine ?st1")
        case True
        have "length jrest \<le> length ws" using lj Cons by simp
        from "1.IH"(1) [OF Cons fit refl True order_refl this u1 u1]
        show ?thesis
          using fit True by (simp add: words_loop_Cons Cons Let_def)
      next
        case False
        have "length jrest \<le> length fs" using "1.prems"(1) Cons by simp
        moreover have "emittedUnits ?st1 @ f_units
            = P @ map (UWord bi) [0..<length ws - length fs]"
          using "1.prems"(4) by simp
        ultimately show ?thesis
          using "1.IH"(2) [OF Cons fit refl False _ "1.prems"(2) u1] fit False
          by (simp add: words_loop_Cons Cons Let_def)
      qed
    next
      case nofit: False
      show ?thesis
      proof (cases "length fs \<noteq> length js \<and> \<not> be")
        case rb: True
        then have "fs \<noteq> []" using "1.prems"(1) Cons by auto
        then obtain f frest where fs: "fs = f # frest" by (cases fs) auto
        let ?st0 = "st\<lparr>ls_widthLeft := fw, ls_lineHeight := fl, ls_units := f_units\<rparr>"
        let ?st1 = "word_break width bh (UWord bi (length ws - length fs)) (0 \<le> w_width j) f ?st0"
        have e0: "emittedUnits ?st0 = emittedUnits st"
          by (simp add: emittedUnits_def)
        have u1: "emittedUnits ?st1 @ ls_units ?st1
                  = P @ map (UWord bi) [0..<length ws - length frest]"
          using "1.prems"(4) upt_words_step [OF "1.prems"(2) fs, of bi] by (simp add: e0)
        have "length frest \<le> length ws" using "1.prems"(2) fs by simp
        from "1.IH"(3) [OF Cons nofit rb fs refl order_refl this u1 u1]
        show ?thesis
          using nofit rb by (simp add: words_loop_Cons Cons fs Let_def)
      next
        case norb: False
        let ?st1 = "word_break width bh (UWord bi (length ws - length js)) (0 \<le> w_width j) j st"
        have u1: "emittedUnits ?st1 @ ls_units ?st1
                  = P @ map (UWord bi) [0..<length ws - length jrest]"
          using "1.prems"(3) by (simp add: step)
        have "length jrest \<le> length ws" using lj Cons by simp
        note ih = "1.IH"(4) [OF Cons nofit norb refl order_refl this u1 u1]
        have c: "(length fs \<noteq> length (j # jrest) \<and> \<not> be) = False"
          using norb Cons by simp
        have "words_loop width be bh bi ws js fs fw fl f_units st
            = words_loop width be bh bi ws jrest jrest
                (ls_widthLeft ?st1) (ls_lineHeight ?st1) (ls_units ?st1) ?st1"
          unfolding Cons words_loop_Cons c using nofit by (simp add: Let_def)
        then show ?thesis
          using ih by simp
      qed
    qed
  qed
qed


lemma enumerate_block_units:
  assumes "emittedUnits st @ ls_units st = P"
  shows "\<exists>split. (split \<longrightarrow> b_type b = BText \<and> b_words b \<noteq> [])
           \<and> emittedUnits (enumerate_block s width be bi b st)
                 @ ls_units (enumerate_block s width be bi b st)
               = P @ blockUnits bi b split"
proof -
  let ?nwl = "ls_widthLeft st - ls_last_rBearing st
                - (ls_last_rPadding st + b_width b - b_rbearing b)"
  consider (fits) "0 \<le> ?nwl"
    | (spaces) "\<not> 0 \<le> ?nwl" "b_type b = BText" "b_words b = []"
    | (words) "\<not> 0 \<le> ?nwl" "b_type b = BText" "b_words b \<noteq> []"
    | (other) "\<not> 0 \<le> ?nwl" "b_type b \<noteq> BText"
    by blast
  then show ?thesis
  proof cases
    case fits
    then have "emittedUnits (enumerate_block s width be bi b st)
                 @ ls_units (enumerate_block s width be bi b st) = P @ blockUnits bi b False"
      using assms by (simp add: enumerate_block_def Let_def emittedUnits_def blockUnits_def)
    then show ?thesis by (intro exI [of _ False]) simp
  next
    case spaces
    then have "emittedUnits (enumerate_block s width be bi b st)
                 @ ls_units (enumerate_block s width be bi b st) = P @ blockUnits bi b False"
      using assms by (simp add: enumerate_block_def Let_def emittedUnits_def blockUnits_def)
    then show ?thesis by (intro exI [of _ False]) simp
  next
    case words
    have "emittedUnits st @ ls_units st
            = P @ map (UWord bi) [0..<length (b_words b) - length (b_words b)]"
      using assms by simp
    from words_loop_units [OF order_refl order_refl this this]
    have "emittedUnits (enumerate_block s width be bi b st)
                 @ ls_units (enumerate_block s width be bi b st) = P @ blockUnits bi b True"
      using words by (simp add: enumerate_block_def Let_def blockUnits_def)
    then show ?thesis using words(2,3) by (intro exI [of _ True]) simp
  next
    case other
    then have "emittedUnits (enumerate_block s width be bi b st)
                 @ ls_units (enumerate_block s width be bi b st) = P @ blockUnits bi b False"
      using assms
      by (simp add: enumerate_block_def Let_def emittedUnits_def blockUnits_def callback_def)
    then show ?thesis by (intro exI [of _ False]) simp
  qed
qed

lemma enumerate_newline_units:
  assumes "enumerate_newline s width bi b st = Some st'"
  shows "emittedUnits st' @ ls_units st' = emittedUnits st @ ls_units st @ [UBlock bi]"
  using assms
  by (auto simp: enumerate_newline_def Let_def emittedUnits_def callback_def
      split: if_splits option.splits)

lemma enumerate_newline_valid:
  "paragraphIndexValid s (b_paragraphIndex b)
   \<Longrightarrow> \<exists>st'. enumerate_newline s width bi b st = Some st'"
  by (auto simp: enumerate_newline_def paragraphIndexValid_def paragraphByIndex_def
      paragraphIndex_def Let_def split: option.splits)

lemma lines_loop_units:
  assumes "list_all (\<lambda>b. b_type b = BNewline \<longrightarrow> paragraphIndexValid s (b_paragraphIndex b)) bs"
    and "emittedUnits st @ ls_units st = P"
  shows "\<exists>st' splits. lines_loop s width be bi bs st = Some st'
           \<and> list_all2 (\<lambda>b split. split \<longrightarrow> b_type b = BText \<and> b_words b \<noteq> []) bs splits
           \<and> emittedUnits st' @ ls_units st' = P @ layoutUnits bi bs splits"
  using assms
proof (induction bs arbitrary: bi st P)
  case Nil
  then show ?case by simp
next
  case (Cons b bs)
  have rest: "list_all (\<lambda>b. b_type b = BNewline \<longrightarrow> paragraphIndexValid s (b_paragraphIndex b)) bs"
    using Cons.prems(1) by simp
  show ?case
  proof (cases "b_type b = BNewline")
    case True
    then obtain st1 where st1: "enumerate_newline s width bi b st = Some st1"
      using Cons.prems(1) enumerate_newline_valid by fastforce
    have "emittedUnits st1 @ ls_units st1 = P @ [UBlock bi]"
      using enumerate_newline_units [OF st1] Cons.prems(2) by simp
    from Cons.IH [OF rest this, of "Suc bi"]
    obtain st' splits where r: "lines_loop s width be (Suc bi) bs st1 = Some st'"
      "list_all2 (\<lambda>b split. split \<longrightarrow> b_type b = BText \<and> b_words b \<noteq> []) bs splits"
      "emittedUnits st' @ ls_units st' = (P @ [UBlock bi]) @ layoutUnits (Suc bi) bs splits"
      by blast
    have "lines_loop s width be bi (b # bs) st = Some st'"
      using True st1 r(1) by simp
    moreover have "list_all2 (\<lambda>b split. split \<longrightarrow> b_type b = BText \<and> b_words b \<noteq> [])
        (b # bs) (False # splits)"
      using r(2) by simp
    moreover have "emittedUnits st' @ ls_units st' = P @ layoutUnits bi (b # bs) (False # splits)"
      using r(3) by (simp add: blockUnits_def)
    ultimately show ?thesis
      by (intro exI [of _ st'] exI [of _ "False # splits"] conjI)
  next
    case False
    let ?st1 = "enumerate_block s width be bi b st"
    obtain split where sp: "emittedUnits ?st1 @ ls_units ?st1 = P @ blockUnits bi b split"
      and sw: "split \<longrightarrow> b_type b = BText \<and> b_words b \<noteq> []"
      using enumerate_block_units [OF Cons.prems(2)] by blast
    from Cons.IH [OF rest sp, of "Suc bi"]
    obtain st' splits where r: "lines_loop s width be (Suc bi) bs ?st1 = Some st'"
      "list_all2 (\<lambda>b split. split \<longrightarrow> b_type b = BText \<and> b_words b \<noteq> []) bs splits"
      "emittedUnits st' @ ls_units st'
         = (P @ blockUnits bi b split) @ layoutUnits (Suc bi) bs splits"
      by blast
    have "lines_loop s width be bi (b # bs) st = Some st'"
      using False r(1) by simp
    moreover have "list_all2 (\<lambda>b split. split \<longrightarrow> b_type b = BText \<and> b_words b \<noteq> [])
        (b # bs) (split # splits)"
      using r(2) sw by simp
    moreover have "emittedUnits st' @ ls_units st' = P @ layoutUnits bi (b # bs) (split # splits)"
      using r(3) by simp
    ultimately show ?thesis
      by (intro exI [of _ st'] exI [of _ "split # splits"] conjI)
  qed
qed

lemma layoutUnits_from:
  "u \<in> set (layoutUnits bi bs splits) \<Longrightarrow> bi \<le> unitBlock u"
proof (induction bs arbitrary: bi splits)
  case Nil
  then show ?case by simp
next
  case (Cons b bs)
  then show ?case
    by (fastforce simp: blockUnits_def split: if_splits)
qed

lemma distinct_blockUnits: "distinct (blockUnits bi b split)"
  by (simp add: blockUnits_def distinct_map inj_on_def)

lemma distinct_layoutUnits: "distinct (layoutUnits bi bs splits)"
proof (induction bs arbitrary: bi splits)
  case Nil
  show ?case by simp
next
  case (Cons b bs)
  have "\<And>u. u \<in> set (blockUnits bi b (splits \<noteq> [] \<and> hd splits)) \<Longrightarrow> unitBlock u = bi"
    by (auto simp: blockUnits_def split: if_splits)
  moreover have "\<And>u. u \<in> set (layoutUnits (Suc bi) bs (tl splits)) \<Longrightarrow> Suc bi \<le> unitBlock u"
    by (rule layoutUnits_from)
  ultimately have "set (blockUnits bi b (splits \<noteq> [] \<and> hd splits))
      \<inter> set (layoutUnits (Suc bi) bs (tl splits)) = {}"
    by fastforce
  then show ?case
    using Cons.IH distinct_blockUnits by simp
qed

text \<open>
  C9 (as amended). For every string whose paragraph indices are valid, every width and
  either setting of breakEverywhere, enumerateLines returns, and every unit is placed
  exactly once and in order on the lines. The units of a block are the block itself or,
  only for a text block that has words, each of its words; a block without words is
  always one unit. All lines are emitted but possibly the last: the units after the final
  break stay on a line that is emitted only when its accumulated width is positive.
\<close>

theorem enumerateLines_places_every_unit:
  assumes "paragraphsValid s"
  shows "\<exists>lines pending splits.
           enumerateLines s w breakEverywhere = Some lines
         \<and> enumerateLines_pending s w breakEverywhere = Some pending
         \<and> length splits = length (m_blocks s)
         \<and> list_all2 (\<lambda>b split. split \<longrightarrow> b_type b = BText \<and> b_words b \<noteq> [])
               (m_blocks s) splits
         \<and> concat (map line_units lines) @ pending = layoutUnits 0 (m_blocks s) splits
         \<and> distinct (concat (map line_units lines) @ pending)"
proof -
  let ?width = "QFixed_fromInt (max w (m_minResizeWidth s))"
  obtain p where p: "paragraphByIndex s (m_startParagraphIndex s) = Some p"
    using assms paragraphByIndex_valid by (auto simp: paragraphsValid_def)
  let ?st0 = "\<lparr>ls_pindex = m_startParagraphIndex s, ls_ppadding = paragraphPadding s p,
               ls_widthLeft = ?width - QFixed_fromInt (m_left (paragraphPadding s p))
                 - QFixed_fromInt (m_right (paragraphPadding s p)),
               ls_lineHeight = 0, ls_last_rBearing = 0, ls_last_rPadding = 0,
               ls_longWordLine = True, ls_lines = [], ls_units = []\<rparr>"
  have v: "list_all (\<lambda>b. b_type b = BNewline \<longrightarrow> paragraphIndexValid s (b_paragraphIndex b))
             (m_blocks s)"
    using assms by (simp add: paragraphsValid_def)
  have "emittedUnits ?st0 @ ls_units ?st0 = []"
    by (simp add: emittedUnits_def)
  from lines_loop_units [OF v this, of ?width breakEverywhere 0]
  obtain st splits where r0: "lines_loop s ?width breakEverywhere 0 (m_blocks s) ?st0 = Some st"
    "list_all2 (\<lambda>b split. split \<longrightarrow> b_type b = BText \<and> b_words b \<noteq> []) (m_blocks s) splits"
    "emittedUnits st @ ls_units st = layoutUnits 0 (m_blocks s) splits"
    by auto
  have r: "lines_loop s ?width breakEverywhere 0 (m_blocks s) ?st0 = Some st"
    "length splits = length (m_blocks s)"
    "emittedUnits st @ ls_units st = layoutUnits 0 (m_blocks s) splits"
    using r0 by (simp_all add: list_all2_lengthD)
  have l: "enumerateLines_loop s w breakEverywhere = Some st"
    using p r(1) by (simp add: enumerateLines_loop_def paragraphIndex_def Let_def)
  show ?thesis
  proof (cases "ls_widthLeft st < ?width")
    case True
    have "enumerateLines s w breakEverywhere
        = Some (ls_lines st @ [\<lparr>line_width = ?width - ls_widthLeft st,
             line_height = ls_lineHeight st + m_top (ls_ppadding st) + m_bottom (ls_ppadding st),
             line_units = ls_units st\<rparr>])"
      using l True by (simp add: enumerateLines_def Let_def callback_def)
    moreover have "enumerateLines_pending s w breakEverywhere = Some []"
      using l True by (simp add: enumerateLines_pending_def Let_def)
    ultimately show ?thesis
      using r(2,3) r0(2) distinct_layoutUnits [of 0 "m_blocks s" splits]
      by (intro exI [of _ "ls_lines st @ [\<lparr>line_width = ?width - ls_widthLeft st,
             line_height = ls_lineHeight st + m_top (ls_ppadding st) + m_bottom (ls_ppadding st),
             line_units = ls_units st\<rparr>]"] exI [of _ "[]"] exI [of _ splits])
         (simp add: emittedUnits_def)
  next
    case False
    have "enumerateLines s w breakEverywhere = Some (ls_lines st)"
      using l False by (simp add: enumerateLines_def Let_def)
    moreover have "enumerateLines_pending s w breakEverywhere = Some (ls_units st)"
      using l False by (simp add: enumerateLines_pending_def Let_def)
    ultimately show ?thesis
      using r(2,3) r0(2) distinct_layoutUnits [of 0 "m_blocks s" splits]
      by (intro exI [of _ "ls_lines st"] exI [of _ "ls_units st"] exI [of _ splits])
         (simp add: emittedUnits_def)
  qed
qed

lemma ex_quote_spacer_valid: "paragraphsValid ex_quote_spacer"
  by code_simp

theorem enumerateLines_places_every_unit_witness:
  "paragraphsValid ex_quote_spacer
   \<and> (\<exists>lines pending splits.
           enumerateLines ex_quote_spacer 40 False = Some lines
         \<and> enumerateLines_pending ex_quote_spacer 40 False = Some pending
         \<and> length splits = length (m_blocks ex_quote_spacer)
         \<and> list_all2 (\<lambda>b split. split \<longrightarrow> b_type b = BText \<and> b_words b \<noteq> [])
               (m_blocks ex_quote_spacer) splits
         \<and> concat (map line_units lines) @ pending
             = layoutUnits 0 (m_blocks ex_quote_spacer) splits
         \<and> distinct (concat (map line_units lines) @ pending))"
  using enumerateLines_places_every_unit [OF ex_quote_spacer_valid, of 40 False]
    ex_quote_spacer_valid
  by blast

text \<open>
  The claim as stated fails where the last line has no width: after
  \<open>updateSkipBlock 0 10\<close> on the two-paragraph example, the layout at width 40 emits
  three lines, and the Skip block (unit 4) stays on a fourth line that is never emitted.
\<close>

theorem enumerateLines_leaves_unit_unemitted:
  "updateSkipBlock ex_quote 0 10 = Some (True, ex_quote_spacer)
   \<and> map b_type (m_blocks ex_quote_spacer) = [BText, BNewline, BText, BNewline, BSkip]
   \<and> m_maxWidth ex_quote_spacer = 44
   \<and> map_option (map line_units) (enumerateLines ex_quote_spacer 40 False)
       = Some [[UBlock 0, UBlock 1], [UWord 2 0], [UWord 2 1, UBlock 3]]
   \<and> enumerateLines_pending ex_quote_spacer 40 False = Some [UBlock 4]"
  by code_simp


subsection \<open>Adjusting a selection\<close>

lemma unat_pred: "(0 :: uint16) < x \<Longrightarrow> unat (x - 1) = unat x - 1"
  by (simp add: unat_minus_one word_greater_zero_iff)

lemma unat_succ: "unat (x :: uint16) < n \<Longrightarrow> n \<le> 65535 \<Longrightarrow> unat (x + 1) = unat x + 1"
  by (simp add: unat_word_ariths)

lemma unat_of_nat16: "n \<le> 65535 \<Longrightarrow> unat (word_of_nat n :: uint16) = n"
  by (simp add: unat_of_nat)

lemma scanBackward_le: "scanBackward sep t from \<le> from"
proof (induction sep t "from" rule: scanBackward.induct)
  case (1 sep t "from")
  show ?case
  proof (cases "from > 0 \<and> \<not> sep (t ! (unat from - 1))")
    case True
    then have "scanBackward sep t (from - 1) \<le> from - 1"
      using "1.IH" by simp
    moreover have "from - 1 \<le> from"
      using True by (simp add: word_le_nat_alt unat_pred)
    ultimately show ?thesis
      using True by (subst scanBackward.simps) simp
  next
    case False
    then show ?thesis
      by (subst scanBackward.simps) auto
  qed
qed




lemma scanForward_returns:
  assumes "length t \<le> 65535"
  shows "\<exists>to'. scanForward sep t to = Some to' \<and> to \<le> to'
           \<and> (unat to \<le> length t \<longrightarrow> unat to' \<le> length t)
           \<and> (unat to' < length t \<longrightarrow> sep (t ! unat to'))
           \<and> (unat to < length t \<and> \<not> sep (t ! unat to) \<longrightarrow> to < to')"
proof (induction "length t - unat to" arbitrary: to rule: less_induct)
  case less
  show ?case
  proof (cases "unat to < length t \<and> \<not> sep (t ! unat to)")
    case True
    have s: "unat (to + 1) = unat to + 1"
      using True assms unat_succ by blast
    then have "length t - unat (to + 1) < length t - unat to"
      using True by linarith
    from less [OF this]
    obtain to' where r: "scanForward sep t (to + 1) = Some to'" "to + 1 \<le> to'"
      "unat (to + 1) \<le> length t \<longrightarrow> unat to' \<le> length t"
      "unat to' < length t \<longrightarrow> sep (t ! unat to')"
      by blast
    have "scanForward sep t to = Some to'"
      using True r(1) by (subst scanForward.simps) simp
    moreover have "to < to'"
      using r(2) s by (simp add: word_less_nat_alt word_le_nat_alt)
    moreover have "unat to' \<le> length t"
      using r(3) s True by simp
    ultimately show ?thesis
      using r(4) by simp
  next
    case False
    then have "scanForward sep t to = Some to"
      by (subst scanForward.simps) auto
    then show ?thesis
      using False by auto
  qed
qed


lemma expandToSeparators_returns:
  assumes len: "length t \<le> 65535" and f: "unat from < length t"
    and ft: "from \<le> to" and tl: "unat to \<le> length t"
  shows "\<exists>r. expandToSeparators sep t from to = Some r
          \<and> sel_from r = (if \<not> sep (t ! unat from) then scanBackward sep t from else from)
          \<and> sel_from r \<le> from \<and> to \<le> sel_to r \<and> unat (sel_to r) \<le> length t
          \<and> (sel_to r = to \<longleftrightarrow> unat to = length t)"
proof -
  let ?f = "if \<not> sep (t ! unat from) then scanBackward sep t from else from"
  have fle: "?f \<le> from"
    by (simp add: scanBackward_le)
  consider (atEnd) "unat to = length t"
    | (onSep) "unat to < length t" "sep (t ! unat to)"
    | (inWord) "unat to < length t" "\<not> sep (t ! unat to)"
    using tl by linarith
  then show ?thesis
  proof cases
    case atEnd
    then have "expandToSeparators sep t from to = Some \<lparr>sel_from = ?f, sel_to = to\<rparr>"
      using f by (simp add: expandToSeparators_def)
    then show ?thesis
      using fle atEnd by simp
  next
    case onSep
    have s: "unat (to + 1) = unat to + 1"
      using onSep(1) len unat_succ by blast
    have "expandToSeparators sep t from to = Some \<lparr>sel_from = ?f, sel_to = to + 1\<rparr>"
      using f onSep by (simp add: expandToSeparators_def)
    moreover have "to \<le> to + 1" "to + 1 \<noteq> to"
      using s by (simp_all add: word_le_nat_alt) 
    moreover have "unat (to + 1) \<le> length t"
      using s onSep(1) by simp
    ultimately show ?thesis
      using fle onSep(1) by simp
  next
    case inWord
    from scanForward_returns [OF len, of sep to]
    obtain to' where r: "scanForward sep t to = Some to'" "to \<le> to'"
      "unat to' \<le> length t" "to < to'"
      using inWord by auto
    have "expandToSeparators sep t from to = Some \<lparr>sel_from = ?f, sel_to = to'\<rparr>"
      using f inWord r(1) by (simp add: expandToSeparators_def)
    then show ?thesis
      using fle r inWord(1) by auto
  qed
qed



lemma unat_bound16: "unat (x :: uint16) \<le> 65535"
  using unsigned_less [of x, where 'a = nat] by simp

lemma adjustSelection_Words:
  "adjustSelection env s sel Words =
     (if unat (sel_from sel) < length (m_text s) \<and> sel_from sel \<le> sel_to sel
      then expandToSeparators IsWordSeparator (m_text s) (sel_from sel)
             (if unat (sel_to sel) > length (m_text s)
              then word_of_nat (length (m_text s)) else sel_to sel)
      else Some sel)"
  by (simp add: adjustSelection_def Let_def)

lemma adjustSelection_degenerate:
  "sel_to sel < sel_from sel \<or> length (m_text s) \<le> unat (sel_from sel)
   \<Longrightarrow> adjustSelection env s sel selectType = Some sel"
  by (auto simp: adjustSelection_def Let_def)

lemma adjustSelection_clamp:
  assumes "unat (sel_from sel) < length (m_text s)" "sel_from sel \<le> sel_to sel"
    "length (m_text s) < unat (sel_to sel)"
  shows "adjustSelection env s sel selectType
         = adjustSelection env s (sel\<lparr>sel_to := word_of_nat (length (m_text s))\<rparr>) selectType"
proof -
  have l: "length (m_text s) \<le> 65535"
    using assms(3) unat_bound16 [of "sel_to sel"] by simp
  then have u: "unat (word_of_nat (length (m_text s)) :: uint16) = length (m_text s)"
    by (rule unat_of_nat16)
  have "sel_from sel \<le> word_of_nat (length (m_text s))"
    using assms(1) u by (simp add: word_le_nat_alt)
  then show ?thesis
    using assms u by (simp add: adjustSelection_def Let_def)
qed


text \<open>
  C5 (as amended). In every mode, a range whose \<open>from\<close> is past its \<open>to\<close>, or at or
  past the text length, is returned unmodified. A range with \<open>from\<close> inside the text,
  \<open>from <= to\<close> and \<open>to\<close> beyond the text length is adjusted as the same range
  with \<open>to\<close> at the text length; in letter and word mode the resulting \<open>to\<close> is
  the text length. An empty range \<open>from = to\<close> inside the text is returned unmodified
  in letter mode; in word mode, on a text whose length fits the 16-bit positions, it is
  never returned unmodified: the result keeps or lowers \<open>from\<close> and has a larger
  \<open>to\<close>.
\<close>

theorem adjustSelection_clamps_and_keeps_degenerate:
  "(sel_to sel < sel_from sel \<or> length (m_text s) \<le> unat (sel_from sel)
      \<longrightarrow> adjustSelection env s sel selectType = Some sel)
   \<and> (unat (sel_from sel) < length (m_text s) \<and> sel_from sel \<le> sel_to sel
        \<and> length (m_text s) < unat (sel_to sel)
      \<longrightarrow> adjustSelection env s sel selectType
            = adjustSelection env s (sel\<lparr>sel_to := word_of_nat (length (m_text s))\<rparr>)
                selectType
          \<and> (selectType = Letters
               \<longrightarrow> adjustSelection env s sel selectType
                   = Some (sel\<lparr>sel_to := word_of_nat (length (m_text s))\<rparr>))
          \<and> (selectType = Words
               \<longrightarrow> (\<exists>r. adjustSelection env s sel selectType = Some r
                        \<and> sel_from r \<le> sel_from sel
                        \<and> sel_to r = word_of_nat (length (m_text s)))))
   \<and> (unat (sel_from sel) < length (m_text s) \<and> sel_from sel = sel_to sel
      \<longrightarrow> adjustSelection env s sel Letters = Some sel
          \<and> (length (m_text s) \<le> 65535
               \<longrightarrow> (\<exists>r. adjustSelection env s sel Words = Some r
                        \<and> sel_from r \<le> sel_from sel
                        \<and> sel_to sel < sel_to r)))"
proof (intro conjI impI)
  assume "sel_to sel < sel_from sel \<or> length (m_text s) \<le> unat (sel_from sel)"
  then show "adjustSelection env s sel selectType = Some sel"
    by (rule adjustSelection_degenerate)
next
  assume a: "unat (sel_from sel) < length (m_text s) \<and> sel_from sel \<le> sel_to sel
        \<and> length (m_text s) < unat (sel_to sel)"
  then show "adjustSelection env s sel selectType
            = adjustSelection env s (sel\<lparr>sel_to := word_of_nat (length (m_text s))\<rparr>)
                selectType"
    by (simp add: adjustSelection_clamp)
next
  assume a: "unat (sel_from sel) < length (m_text s) \<and> sel_from sel \<le> sel_to sel
        \<and> length (m_text s) < unat (sel_to sel)" and "selectType = Letters"
  then show "adjustSelection env s sel selectType
                   = Some (sel\<lparr>sel_to := word_of_nat (length (m_text s))\<rparr>)"
    by (simp add: adjustSelection_def Let_def)
next
  assume a: "unat (sel_from sel) < length (m_text s) \<and> sel_from sel \<le> sel_to sel
        \<and> length (m_text s) < unat (sel_to sel)" and w: "selectType = Words"
  let ?n = "word_of_nat (length (m_text s)) :: uint16"
  have l: "length (m_text s) \<le> 65535"
    using a unat_bound16 [of "sel_to sel"] by simp
  then have u: "unat ?n = length (m_text s)"
    by (rule unat_of_nat16)
  have ft: "sel_from sel \<le> ?n"
    using a u by (simp add: word_le_nat_alt)
  have tl: "unat ?n \<le> length (m_text s)"
    using u by simp
  from expandToSeparators_returns [OF l _ ft tl, of IsWordSeparator] a
  obtain r where r: "expandToSeparators IsWordSeparator (m_text s) (sel_from sel) ?n = Some r"
    "sel_from r \<le> sel_from sel" "sel_to r = ?n \<longleftrightarrow> unat ?n = length (m_text s)"
    by blast
  have "adjustSelection env s sel selectType = Some r"
    using a w r(1) by (simp add: adjustSelection_Words)
  then show "\<exists>r. adjustSelection env s sel selectType = Some r
                        \<and> sel_from r \<le> sel_from sel
                        \<and> sel_to r = word_of_nat (length (m_text s))"
    using r(2,3) u by simp
next
  assume e: "unat (sel_from sel) < length (m_text s) \<and> sel_from sel = sel_to sel"
  then have f: "unat (sel_from sel) < length (m_text s)" and eq: "sel_from sel = sel_to sel"
    by blast+
  have "unat (sel_to sel) < length (m_text s)"
    using f unfolding eq .
  then have "\<not> length (m_text s) < unat (sel_to sel)"
    by simp
  then show "adjustSelection env s sel Letters = Some sel"
    using f by (simp add: adjustSelection_def Let_def eq)
next
  assume e: "unat (sel_from sel) < length (m_text s) \<and> sel_from sel = sel_to sel"
    and l: "length (m_text s) \<le> 65535"
  from e have f: "unat (sel_from sel) < length (m_text s)" and eq: "sel_from sel = sel_to sel"
    by blast+
  have lt: "unat (sel_to sel) < length (m_text s)"
    using f unfolding eq .
  have ft: "sel_from sel \<le> sel_to sel"
    by (simp add: eq)
  have tl: "unat (sel_to sel) \<le> length (m_text s)"
    and inside: "unat (sel_to sel) \<noteq> length (m_text s)"
    using lt by simp_all
  from expandToSeparators_returns [OF l f ft tl, of IsWordSeparator]
  obtain r where r: "expandToSeparators IsWordSeparator (m_text s) (sel_from sel) (sel_to sel)
      = Some r"
    "sel_from r \<le> sel_from sel" "sel_to sel \<le> sel_to r"
    "sel_to r = sel_to sel \<longleftrightarrow> unat (sel_to sel) = length (m_text s)"
    by blast
  have "adjustSelection env s sel Words = Some r"
    using f ft tl r(1) by (simp add: adjustSelection_Words)
  moreover have "sel_to sel < sel_to r"
    using r(3,4) inside by (simp add: order_less_le)
  ultimately show "\<exists>r. adjustSelection env s sel Words = Some r
                        \<and> sel_from r \<le> sel_from sel \<and> sel_to sel < sel_to r"
    using r(2) by blast
qed

theorem adjustSelection_clamps_and_keeps_degenerate_witness:
  "adjustSelection ex_env ex_a_b \<lparr>sel_from = 5, sel_to = 9\<rparr> Paragraphs
     = Some \<lparr>sel_from = 5, sel_to = 9\<rparr>
   \<and> adjustSelection ex_env ex_a_b \<lparr>sel_from = 2, sel_to = 1\<rparr> Words
     = Some \<lparr>sel_from = 2, sel_to = 1\<rparr>
   \<and> (\<exists>r. adjustSelection ex_env ex_a_b \<lparr>sel_from = 1, sel_to = 9\<rparr> Words = Some r
          \<and> sel_from r \<le> 1 \<and> sel_to r = 3)
   \<and> adjustSelection ex_env ex_a_b \<lparr>sel_from = 1, sel_to = 9\<rparr> Letters
     = Some \<lparr>sel_from = 1, sel_to = 3\<rparr>
   \<and> adjustSelection ex_env ex_a_b \<lparr>sel_from = 2, sel_to = 2\<rparr> Letters
     = Some \<lparr>sel_from = 2, sel_to = 2\<rparr>
   \<and> (\<exists>r. adjustSelection ex_env ex_a_b \<lparr>sel_from = 2, sel_to = 2\<rparr> Words = Some r
          \<and> sel_from r \<le> 2 \<and> 2 < sel_to r)"
proof -
  have t: "m_text ex_a_b = [97, 32, 98]"
    by (simp add: ex_a_b_def)
  have e: "unat (sel_from \<lparr>sel_from = 2 :: uint16, sel_to = 2 :: uint16\<rparr>) < length (m_text ex_a_b)
      \<and> sel_from \<lparr>sel_from = 2 :: uint16, sel_to = 2 :: uint16\<rparr>
          = sel_to \<lparr>sel_from = 2 :: uint16, sel_to = 2 :: uint16\<rparr>"
    and l: "length (m_text ex_a_b) \<le> 65535"
    by (simp_all add: t)
  have a5: "adjustSelection ex_env ex_a_b \<lparr>sel_from = 2, sel_to = 2\<rparr> Letters
     = Some \<lparr>sel_from = 2, sel_to = 2\<rparr>"
    using adjustSelection_clamps_and_keeps_degenerate
            [of "\<lparr>sel_from = 2, sel_to = 2\<rparr>" ex_a_b ex_env Letters] e
    by blast
  have "\<exists>r. adjustSelection ex_env ex_a_b \<lparr>sel_from = 2, sel_to = 2\<rparr> Words = Some r
          \<and> sel_from r \<le> sel_from \<lparr>sel_from = 2 :: uint16, sel_to = 2 :: uint16\<rparr>
          \<and> sel_to \<lparr>sel_from = 2 :: uint16, sel_to = 2 :: uint16\<rparr> < sel_to r"
    using adjustSelection_clamps_and_keeps_degenerate
            [of "\<lparr>sel_from = 2, sel_to = 2\<rparr>" ex_a_b ex_env Words] e l
    by blast
  then have a6: "\<exists>r. adjustSelection ex_env ex_a_b \<lparr>sel_from = 2, sel_to = 2\<rparr> Words = Some r
          \<and> sel_from r \<le> 2 \<and> 2 < sel_to r"
    by simp
  have d1: "sel_to \<lparr>sel_from = 5, sel_to = 9 :: uint16\<rparr> < sel_from \<lparr>sel_from = 5 :: uint16, sel_to = 9\<rparr>
      \<or> length (m_text ex_a_b) \<le> unat (sel_from \<lparr>sel_from = 5 :: uint16, sel_to = 9 :: uint16\<rparr>)"
    by (simp add: t)
  have d2: "sel_to \<lparr>sel_from = 2, sel_to = 1 :: uint16\<rparr> < sel_from \<lparr>sel_from = 2 :: uint16, sel_to = 1\<rparr>
      \<or> length (m_text ex_a_b) \<le> unat (sel_from \<lparr>sel_from = 2 :: uint16, sel_to = 1 :: uint16\<rparr>)"
    by (simp add: t)
  have c: "unat (sel_from \<lparr>sel_from = 1 :: uint16, sel_to = 9 :: uint16\<rparr>) < length (m_text ex_a_b)
      \<and> sel_from \<lparr>sel_from = 1 :: uint16, sel_to = 9 :: uint16\<rparr>
          \<le> sel_to \<lparr>sel_from = 1 :: uint16, sel_to = 9 :: uint16\<rparr>
      \<and> length (m_text ex_a_b) < unat (sel_to \<lparr>sel_from = 1 :: uint16, sel_to = 9 :: uint16\<rparr>)"
    by (simp add: t)
  have a1: "adjustSelection ex_env ex_a_b \<lparr>sel_from = 5, sel_to = 9\<rparr> Paragraphs
     = Some \<lparr>sel_from = 5, sel_to = 9\<rparr>"
    using adjustSelection_clamps_and_keeps_degenerate
            [of "\<lparr>sel_from = 5, sel_to = 9\<rparr>" ex_a_b ex_env Paragraphs] d1
    by blast
  have a2: "adjustSelection ex_env ex_a_b \<lparr>sel_from = 2, sel_to = 1\<rparr> Words
     = Some \<lparr>sel_from = 2, sel_to = 1\<rparr>"
    using adjustSelection_clamps_and_keeps_degenerate
            [of "\<lparr>sel_from = 2, sel_to = 1\<rparr>" ex_a_b ex_env Words] d2
    by blast
  have "\<exists>r. adjustSelection ex_env ex_a_b \<lparr>sel_from = 1, sel_to = 9\<rparr> Words = Some r
          \<and> sel_from r \<le> sel_from \<lparr>sel_from = 1 :: uint16, sel_to = 9 :: uint16\<rparr>
          \<and> sel_to r = word_of_nat (length (m_text ex_a_b))"
    using adjustSelection_clamps_and_keeps_degenerate
            [of "\<lparr>sel_from = 1, sel_to = 9\<rparr>" ex_a_b ex_env Words] c
    by blast
  then have a3: "\<exists>r. adjustSelection ex_env ex_a_b \<lparr>sel_from = 1, sel_to = 9\<rparr> Words = Some r
          \<and> sel_from r \<le> 1 \<and> sel_to r = 3"
    by (simp add: t)
  have "adjustSelection ex_env ex_a_b \<lparr>sel_from = 1, sel_to = 9\<rparr> Letters
     = Some (\<lparr>sel_from = 1, sel_to = 9\<rparr>\<lparr>sel_to := word_of_nat (length (m_text ex_a_b))\<rparr>)"
    using adjustSelection_clamps_and_keeps_degenerate
            [of "\<lparr>sel_from = 1, sel_to = 9\<rparr>" ex_a_b ex_env Letters] c
    by blast
  then have a4: "adjustSelection ex_env ex_a_b \<lparr>sel_from = 1, sel_to = 9\<rparr> Letters
     = Some \<lparr>sel_from = 1, sel_to = 3\<rparr>"
    by (simp add: t)
  show ?thesis
    using a1 a2 a3 a4 a5 a6 by blast
qed

text \<open>
  An empty range inside the text is not always returned unmodified (the guard is
  \<open>from <= to\<close>): in word mode the empty range at 0 of "a b" becomes the word.
\<close>

theorem adjustSelection_expands_empty_range:
  "adjustSelection ex_env ex_a_b \<lparr>sel_from = 0, sel_to = 0\<rparr> Words
     = Some \<lparr>sel_from = 0, sel_to = 1\<rparr>"
  by code_simp







subsection \<open>The plain text of the full selection\<close>

lemma callEvent_text:
  "tt_text (callEvent env ce cn st ev) = tt_text st @ eventPart ev"
  by (cases ev)
     (simp_all add: appendPartCallback_def clickHandlerStartCallback_def
        clickHandlerFinishCallback_def flagsChangeCallback_def Let_def
        split: option.splits prod.splits)

lemma foldl_callEvent_text:
  "tt_text (foldl (callEvent env ce cn) st evs) = tt_text st @ concat (map eventPart evs)"
  by (induction evs arbitrary: st) (simp_all add: callEvent_text)

lemma step_parts:
  assumes "enumerateText_step s sel bp bf bl li lp fl = (evs, li1, lp1, fl1)"
  shows "concat (map eventPart evs) = []" and "lp1 = lp \<or> lp1 = bp"
proof -
  have e: "evs = fst (enumerateText_step s sel bp bf bl li lp fl)"
    "lp1 = fst (snd (snd (enumerateText_step s sel bp bf bl li lp fl)))"
    using assms by simp_all
  show "concat (map eventPart evs) = []"
    unfolding e by (simp add: enumerateText_step_def linkFinish_def linkStart_def Let_def)
  show "lp1 = lp \<or> lp1 = bp"
    unfolding e by (simp add: enumerateText_step_def Let_def)
qed

lemma blockLinkIndex_valid:
  assumes "case m_extended s of None \<Rightarrow> True | Some ext \<Rightarrow> b_linkIndex b \<le> length (ed_links ext)"
  shows "\<exists>bl. blockLinkIndex s (b # rest) = Some bl"
  using assms
  by (auto simp: blockLinkIndex_def Let_def split: option.splits)

lemma all_selection_bounds:
  "sel_from AllTextSelection = 0" "sel_to AllTextSelection = 65535"
  by (simp_all add: AllTextSelection_def)

lemma below_all: "unat (x :: uint16) < 65535 \<Longrightarrow> \<not> 65535 \<le> x"
  by (simp add: word_le_nat_alt)

lemma le_all: "(x :: uint16) \<le> 65535"
  using unat_bound16 [of x] by (simp add: word_le_nat_alt)

lemma nat_uint_diff: "nat (uint (e :: uint16) - uint (p :: uint16)) = unat e - unat p"
  by (simp add: nat_diff_distrib')

lemma appendPart_all:
  assumes "unat (b_position b) \<le> unat e" "unat e \<le> length (m_text s)"
    and "countBlockEnd s (b # rest) = e"
  shows "length (concat (map eventPart (appendPart s AllTextSelection (b # rest))))
           = unat e - unat (b_position b)"
proof -
  have c: "b_position b + countBlockLength s (b # rest) = e"
    using assms(3) by (simp add: countBlockLength_def)
  have mx: "max 0 (b_position b) = b_position b"
    by (simp add: max_def)
  have mn: "min 65535 e = e"
    using le_all [of e] by (simp add: min_def)
  have ap: "appendPart s AllTextSelection (b # rest) =
      (if e > b_position b
       then [AppendPart (StringViewMid (m_text s) (uint (b_position b))
                           (uint e - uint (b_position b)))
               (if b_type b = BCustomEmoji then b_entityData b else [])]
       else [])"
    using le_all [of e]
    by (auto simp: appendPart_def Let_def all_selection_bounds c mx mn)
  show ?thesis
  proof (cases "e > b_position b")
    case True
    then show ?thesis
      using assms(1,2) by (simp add: ap StringViewMid_def nat_uint_diff)
  next
    case False
    then have "unat e = unat (b_position b)"
      using assms(1) by (simp add: word_less_nat_alt)
    then show ?thesis
      using False by (simp add: ap)
  qed
qed


lemma enumerateText_loop_all:
  assumes size: "length (m_text s) < 65535"
    and "sorted (map (\<lambda>b. unat (b_position b)) bs)"
    and "list_all (\<lambda>b. unat (b_position b) \<le> length (m_text s)) bs"
    and "list_all (\<lambda>b. b_type b \<noteq> BSkip) (butlast bs)"
    and "bs \<noteq> [] \<and> b_type (last bs) = BSkip
           \<longrightarrow> unat (b_position (last bs)) + 1 = length (m_text s)"
    and "list_all (\<lambda>b. case m_extended s of
                          None \<Rightarrow> True
                        | Some ext \<Rightarrow> b_linkIndex b \<le> length (ed_links ext)) bs"
    and "unat lp \<le> length (m_text s)"
  shows "\<exists>evs. enumerateText_loop s AllTextSelection bs li lp fl = Some evs
           \<and> length (concat (map eventPart evs))
               + (case bs of
                    [] \<Rightarrow> length (m_text s)
                  | b # rest \<Rightarrow> unat (b_position b)
                                + (if b_type (last bs) = BSkip then 1 else 0))
             = length (m_text s)"
  using assms(2-)
proof (induction bs arbitrary: li lp fl)
  case Nil
  obtain evs li1 lp1 fl1 where st:
    "enumerateText_step s AllTextSelection (word_of_nat (length (m_text s))) {} 0 li lp fl
       = (evs, li1, lp1, fl1)"
    by (metis prod_cases4)
  have "enumerateText_loop s AllTextSelection [] li lp fl = Some evs"
    using st by (simp add: blockLinkIndex_def)
  then show ?case
    using step_parts(1) [OF st] by simp
next
  case (Cons b rest)
  note pr = Cons.prems and IH = Cons.IH
  obtain bl where bl: "blockLinkIndex s (b # rest) = Some bl"
    using pr(5) blockLinkIndex_valid [where s = s and b = b and rest = rest] by auto
  obtain evs li1 lp1 fl1 where st:
    "enumerateText_step s AllTextSelection (b_position b) (b_flags b) bl li lp fl
       = (evs, li1, lp1, fl1)"
    by (metis prod_cases4)
  have pb: "unat (b_position b) \<le> length (m_text s)"
    using pr(2) by simp
  have lp1: "unat lp1 \<le> length (m_text s)"
    using step_parts(2) [OF st] pr(6) pb by auto
  have nobreak: "\<not> sel_to AllTextSelection \<le> (if li1 \<noteq> 0 then lp1 else b_position b)"
    using lp1 pb size by (simp add: all_selection_bounds below_all)
  have p1: "sorted (map (\<lambda>b. unat (b_position b)) rest)"
    using pr(1) by simp
  have p2: "list_all (\<lambda>b. unat (b_position b) \<le> length (m_text s)) rest"
    using pr(2) by simp
  have p3: "list_all (\<lambda>b. b_type b \<noteq> BSkip) (butlast rest)"
    using pr(3) by (cases rest) simp_all
  have p4: "rest \<noteq> [] \<and> b_type (last rest) = BSkip
           \<longrightarrow> unat (b_position (last rest)) + 1 = length (m_text s)"
    using pr(4) by auto
  have p5: "list_all (\<lambda>b. case m_extended s of
                          None \<Rightarrow> True
                        | Some ext \<Rightarrow> b_linkIndex b \<le> length (ed_links ext)) rest"
    using pr(5) by simp
  from IH [OF p1 p2 p3 p4 p5 lp1, of li1 fl1]
  obtain later where later: "enumerateText_loop s AllTextSelection rest li1 lp1 fl1 = Some later"
    "length (concat (map eventPart later))
       + (case rest of
            [] \<Rightarrow> length (m_text s)
          | n # rest' \<Rightarrow> unat (b_position n)
                        + (if b_type (last rest) = BSkip then 1 else 0))
     = length (m_text s)"
    by blast
  let ?part = "if b_type b = BSkip then [] else appendPart s AllTextSelection (b # rest)"
  have res: "enumerateText_loop s AllTextSelection (b # rest) li lp fl
      = Some (evs @ ?part @ later)"
    using bl st nobreak later(1) by simp
  have "length (concat (map eventPart ?part)) + unat (b_position b)
          + (if b_type (last (b # rest)) = BSkip then 1 else 0)
        + length (concat (map eventPart later)) = length (m_text s)"
  proof (cases rest)
    case Nil
    have l0: "length (concat (map eventPart later)) = 0"
      using later(2) Nil by simp
    show ?thesis
    proof (cases "b_type b = BSkip")
      case True
      then show ?thesis
        using pr(4) Nil l0 by simp
    next
      case False
      have e: "countBlockEnd s (b # rest) = word_of_nat (length (m_text s))"
        using Nil by (simp add: countBlockEnd_def)
      have u: "unat (word_of_nat (length (m_text s)) :: uint16) = length (m_text s)"
        using size by (simp add: unat_of_nat16)
      have "length (concat (map eventPart (appendPart s AllTextSelection (b # rest))))
              = length (m_text s) - unat (b_position b)"
        using appendPart_all [OF _ _ e] pb u by simp
      then show ?thesis
        using False Nil l0 pb by simp
    qed
  next
    case (Cons n rest')
    have ns: "b_type b \<noteq> BSkip"
      using pr(3) Cons by simp
    have e: "countBlockEnd s (b # rest) = b_position n"
      using Cons by (simp add: countBlockEnd_def)
    have le: "unat (b_position b) \<le> unat (b_position n)"
      using pr(1) Cons by simp
    have pn: "unat (b_position n) \<le> length (m_text s)"
      using p2 Cons by simp
    have "length (concat (map eventPart (appendPart s AllTextSelection (b # rest))))
              = unat (b_position n) - unat (b_position b)"
      using appendPart_all [OF le pn e] by simp
    then show ?thesis
      using ns Cons later(2) le by simp
  qed
  note sum = this
  have pe: "length (concat (map eventPart evs)) = 0"
    by (simp only: step_parts(1) [OF st] list.size(3))
  have "length (concat (map eventPart (evs @ ?part @ later)))
      = length (concat (map eventPart evs))
        + (length (concat (map eventPart ?part)) + length (concat (map eventPart later)))"
    by (simp only: map_append concat_append length_append)
  then have total: "length (concat (map eventPart (evs @ ?part @ later)))
        + (unat (b_position b) + (if b_type (last (b # rest)) = BSkip then 1 else 0))
      = length (m_text s)"
    using pe sum by linarith
  show ?case
  proof (intro exI conjI)
    show "enumerateText_loop s AllTextSelection (b # rest) li lp fl
            = Some (evs @ ?part @ later)"
      by (rule res)
    show "length (concat (map eventPart (evs @ ?part @ later)))
            + (case b # rest of
                 [] \<Rightarrow> length (m_text s)
               | b' # rest' \<Rightarrow> unat (b_position b')
                                + (if b_type (last (b # rest)) = BSkip then 1 else 0))
          = length (m_text s)"
      using total by (simp only: list.case)
  qed
qed


lemma toString_parts:
  assumes "enumerateText s sel = Some evs"
  shows "toString env s sel = Some (concat (map eventPart evs))"
  using assms
  by (simp add: toString_def toText_def toText_enumerated_def toText_initial_def
      foldl_callEvent_text)

text \<open>
  C8. For every string whose blocks cover its text (the positions start at 0, never
  decrease and stay inside a text of fewer than 65535 characters; a Skip block is the last
  block and covers the one sentinel character at the end) and whose link indices are
  valid, toString over the whole range returns a text whose length is the length of the
  backing text, less the one sentinel character when the string has a trailing Skip block.
\<close>

theorem toString_full_selection_length:
  assumes cover: "blocksCoverText s" and links: "linksValid s"
  shows "\<exists>t. toString env s AllTextSelection = Some t
          \<and> length t = (if hasSkipBlock s then length (m_text s) - 1 else length (m_text s))"
proof (cases "m_blocks s")
  case Nil
  then have "enumerateText s AllTextSelection = Some []"
    by (simp add: enumerateText_def isEmpty_def)
  from toString_parts [OF this]
  show ?thesis
    using Nil cover by (simp add: blocksCoverText_def hasSkipBlock_def)
next
  case (Cons b rest)
  have size: "length (m_text s) < 65535"
    and p0: "b_position b = 0"
    and srt: "sorted (map (\<lambda>b. unat (b_position b)) (b # rest))"
    and bnd: "list_all (\<lambda>b. unat (b_position b) \<le> length (m_text s)) (b # rest)"
    and nsk: "list_all (\<lambda>b. b_type b \<noteq> BSkip) (butlast (b # rest))"
    and skp: "b_type (last (b # rest)) = BSkip
                \<longrightarrow> unat (b_position (last (b # rest))) + 1 = length (m_text s)"
    using cover Cons by (simp_all add: blocksCoverText_def hasSkipBlock_def)
  have lnk: "list_all (\<lambda>b. case m_extended s of
                          None \<Rightarrow> True
                        | Some ext \<Rightarrow> b_linkIndex b \<le> length (ed_links ext)) (b # rest)"
    using links Cons by (simp add: linksValid_def)
  have hs: "hasSkipBlock s \<longleftrightarrow> b_type (last (b # rest)) = BSkip"
    using Cons by (simp add: hasSkipBlock_def)
  show ?thesis
  proof (cases "b_type b = BSkip")
    case True
    then have r: "rest = []"
      using nsk by (cases rest) simp_all
    have "enumerateText s AllTextSelection = Some []"
      using True Cons by (simp add: enumerateText_def isEmpty_def)
    from toString_parts [OF this]
    show ?thesis
      using skp hs True r p0 by simp
  next
    case False
    have skp': "b # rest \<noteq> [] \<and> b_type (last (b # rest)) = BSkip
                \<longrightarrow> unat (b_position (last (b # rest))) + 1 = length (m_text s)"
      using skp by simp
    have "unat (0 :: uint16) \<le> length (m_text s)"
      by simp
    from enumerateText_loop_all [OF size srt bnd nsk skp' lnk this, of 0 "{}"]
    obtain evs where evs:
      "enumerateText_loop s AllTextSelection (b # rest) 0 0 {} = Some evs"
      "length (concat (map eventPart evs))
         + (unat (b_position b) + (if b_type (last (b # rest)) = BSkip then 1 else 0))
       = length (m_text s)"
      by (simp only: list.case) blast
    have "enumerateText s AllTextSelection = Some evs"
      using False Cons evs(1)
      by (simp add: enumerateText_def isEmpty_def AllTextSelection_def)
    from toString_parts [OF this]
    have "toString env s AllTextSelection = Some (concat (map eventPart evs))" .
    moreover have "length (concat (map eventPart evs))
        = (if hasSkipBlock s then length (m_text s) - 1 else length (m_text s))"
      using evs(2) p0 hs by (simp split: if_splits)
    ultimately show ?thesis
      by blast
  qed
qed

lemma ex_quote_spacer_length: "length (m_text ex_quote_spacer) = 13"
  by code_simp

lemma ex_quote_spacer_covered: "blocksCoverText ex_quote_spacer"
  unfolding blocksCoverText_def
proof (intro conjI)
  show "length (m_text ex_quote_spacer) < 65535"
    by (simp add: ex_quote_spacer_length)
qed code_simp+

lemma ex_quote_spacer_links: "linksValid ex_quote_spacer"
  by code_simp

theorem toString_full_selection_length_witness:
  "blocksCoverText ex_quote_spacer \<and> linksValid ex_quote_spacer
   \<and> hasSkipBlock ex_quote_spacer \<and> length (m_text ex_quote_spacer) = 13
   \<and> (\<exists>t. toString ex_env ex_quote_spacer AllTextSelection = Some t \<and> length t = 12)"
proof -
  have h: "hasSkipBlock ex_quote_spacer" by code_simp
  note l = ex_quote_spacer_length
  from toString_full_selection_length [OF ex_quote_spacer_covered ex_quote_spacer_links, of ex_env]
  have "\<exists>t. toString ex_env ex_quote_spacer AllTextSelection = Some t \<and> length t = 12"
    by (simp only: h l if_True) simp
  then show ?thesis
    using ex_quote_spacer_covered ex_quote_spacer_links h l by blast
qed


subsection \<open>The order of the entities\<close>

















end
